theory Spec2Isabelle
  imports Main "HOL-Library.Log_Nat" "HOL-Library.Word"
begin

unbundle bit_operations_syntax

section \<open>JavaScript numbers\<close>

text \<open>
  Every number of the program is an IEEE-754 binary64 value. A finite double is modelled by
  its exact rational value, and each arithmetic operation computes the exact result and
  rounds it to the nearest value with a 53-bit significand, ties to even (\<open>fl\<close>).
  The exponent is unbounded in the model: overflow to infinity, subnormal results and
  NaN do not occur for the magnitudes the generator works with and are not modelled.
\<close>

type_synonym number = rat

text \<open>The binary exponent of a positive rational: \<open>2 powi e \<le> x < 2 powi (e + 1)\<close>.\<close>

definition binexp :: "rat \<Rightarrow> int" where
  "binexp x = (let (p, q) = quotient_of x; d = bitlen p - bitlen q
               in if 2 powi d \<le> x then d else d - 1)"

text \<open>Rounding to the nearest integer, ties to the even one.\<close>

definition rne :: "rat \<Rightarrow> int" where
  "rne m = (let f = \<lfloor>m\<rfloor>; r = m - of_int f
            in if r < 1 / 2 then f
               else if 1 / 2 < r then f + 1
               else if even f then f else f + 1)"

definition fl :: "rat \<Rightarrow> number" where
  "fl x = (if x = 0 then 0
           else let u = 2 powi (binexp \<bar>x\<bar> - 52)
                in sgn x * of_int (rne (\<bar>x\<bar> / u)) * u)"

text \<open>A decimal literal of the source denotes the double nearest to it.\<close>

definition lit :: "rat \<Rightarrow> number" where
  "lit q = fl q"

definition jadd :: "number \<Rightarrow> number \<Rightarrow> number" where
  "jadd x y = fl (x + y)"

definition jsub :: "number \<Rightarrow> number \<Rightarrow> number" where
  "jsub x y = fl (x - y)"

definition jmul :: "number \<Rightarrow> number \<Rightarrow> number" where
  "jmul x y = fl (x * y)"

definition jdiv :: "number \<Rightarrow> number \<Rightarrow> number" where
  "jdiv x y = fl (x / y)"

definition Math_floor :: "number \<Rightarrow> number" where
  "Math_floor x = of_int \<lfloor>x\<rfloor>"

text \<open>
  \<open>ToInt32\<close> of ECMAScript, which the bitwise operators apply to their operands: truncate
  towards zero, reduce modulo \<open>2 ^ 32\<close>, read as a signed 32-bit value.
\<close>

definition wrap32 :: "int \<Rightarrow> int" where
  "wrap32 n = (n + 2 ^ 31) mod 2 ^ 32 - 2 ^ 31"

definition ToInt32 :: "number \<Rightarrow> int" where
  "ToInt32 x = wrap32 (if 0 \<le> x then \<lfloor>x\<rfloor> else \<lceil>x\<rceil>)"

section \<open>Strings, arrays and loops\<close>

text \<open>
  A JavaScript string is a sequence of UTF-16 code units; \<open>js\<close> embeds the ASCII
  literals of the source.
\<close>

type_synonym jsstring = "16 word list"

definition js :: "string \<Rightarrow> jsstring" where
  "js s = map (\<lambda>c. of_nat (of_char c)) s"

text \<open>
  \<open>xs[i]\<close> for a number \<open>i\<close>: the element when \<open>i\<close> is an integer index inside the
  array, \<open>undefined\<close> (\<open>None\<close>) otherwise.
\<close>

definition jsidx :: "'a list \<Rightarrow> number \<Rightarrow> 'a option" where
  "jsidx xs i = (if of_int \<lfloor>i\<rfloor> = i \<and> 0 \<le> i \<and> i < of_nat (length xs)
                 then Some (xs ! nat \<lfloor>i\<rfloor>) else None)"

text \<open>\<open>for (let i = lo; i < n; i++) s = body i s\<close>, with the loop state passed along.\<close>

function for_loop :: "int \<Rightarrow> number \<Rightarrow> (int \<Rightarrow> 's \<Rightarrow> 's) \<Rightarrow> 's \<Rightarrow> 's" where
  "for_loop i n body s = (if of_int i < n then for_loop (i + 1) n body (body i s) else s)"
  by pat_completeness auto
termination
  by (relation "measure (\<lambda>(i, n, body, s). nat (\<lceil>n\<rceil> - i))") (auto simp: less_ceiling_iff)

section \<open>Catalogs\<close>

text \<open>\<open>STYLES\<close>: the own properties of the object literal, as (key, name, description).\<close>

definition STYLES :: "(string \<times> string \<times> string) list" where
  "STYLES =
    [(''geometric'', ''Geometric'', ''Sharp angles and bold shapes''),
     (''organic'', ''Organic'', ''Flowing curves and natural forms''),
     (''pixel'', ''Pixel'', ''Retro 8-bit aesthetic''),
     (''circuit'', ''Circuit'', ''Digital circuitry patterns''),
     (''stacks'', ''Stacks'', ''Stacks ecosystem themed''),
     (''faces'', ''Bitcoin Faces'', ''Unique faces from bitcoinfaces.xyz'')]"

text \<open>
  \<open>STYLES\<close> is an ordinary object, so a property read that finds no own property goes on
  to \<open>Object.prototype\<close>. Its function-valued properties other than \<open>constructor\<close> are
  functions whose \<open>name\<close> is the property key.
\<close>

definition Object_prototype_methods :: "string list" where
  "Object_prototype_methods =
    [''toString'', ''toLocaleString'', ''valueOf'', ''hasOwnProperty'', ''isPrototypeOf'',
     ''propertyIsEnumerable'', ''__defineGetter__'', ''__defineSetter__'',
     ''__lookupGetter__'', ''__lookupSetter__'']"

text \<open>
  The value of \<open>STYLES[style]?.name\<close>, \<open>None\<close> for \<open>undefined\<close>: the catalog name for an own
  key; \<open>"Object"\<close> for \<open>constructor\<close> (the function \<open>Object\<close>); the key itself for an
  inherited method; \<open>undefined\<close> for \<open>__proto__\<close> (the prototype object has no \<open>name\<close>) and
  for every other string.
\<close>

definition STYLES_name :: "jsstring \<Rightarrow> jsstring option" where
  "STYLES_name style =
     (case map_of (map (\<lambda>(k, n, d). (js k, js n)) STYLES) style of
        Some n \<Rightarrow> Some n
      | None \<Rightarrow>
          if style = js ''constructor'' then Some (js ''Object'')
          else if style \<in> set (map js Object_prototype_methods) then Some style
          else None)"

definition PALETTES :: "string list list" where
  "PALETTES =
    [[''#FF6B6B'', ''#4ECDC4'', ''#45B7D1'', ''#96CEB4'', ''#FFEAA7''],
     [''#2C3E50'', ''#E74C3C'', ''#ECF0F1'', ''#3498DB'', ''#F39C12''],
     [''#5c73f2'', ''#00d9ff'', ''#ff6b35'', ''#f7931a'', ''#9b59b6''],
     [''#1a1a2e'', ''#16213e'', ''#0f3460'', ''#e94560'', ''#533483''],
     [''#00b894'', ''#00cec9'', ''#0984e3'', ''#6c5ce7'', ''#fd79a8'']]"

section \<open>seededRandom and hashString\<close>

text \<open>
  \<open>seededRandom(seed)\<close> returns a closure over the mutable \<open>seed\<close>; the closure's state is
  that one number, an integer throughout. \<open>rand\<close> is one call of the closure: it returns
  the drawn value and the new state.
\<close>

type_synonym rng = int

definition seededRandom :: "int \<Rightarrow> rng" where
  "seededRandom seed = seed"

definition rand :: "rng \<Rightarrow> number \<times> rng" where
  "rand seed =
     (let seed' = ToInt32 (jadd (jmul (of_int seed) 1103515245) 12345) AND 0x7fffffff
      in (jdiv (of_int seed') 0x7fffffff, seed'))"

text \<open>
  One round of the loop of \<open>hashString\<close>: \<open>hash << 5\<close> is a 32-bit shift, the subtraction
  and the addition are exact (the values stay below \<open>2 ^ 37\<close>), and \<open>hash & hash\<close> is
  \<open>ToInt32\<close>.
\<close>

definition hashString_step :: "int \<Rightarrow> 16 word \<Rightarrow> int" where
  "hashString_step hash c = wrap32 (wrap32 (wrap32 hash * 2 ^ 5) - hash + uint c)"

definition hashString :: "jsstring \<Rightarrow> int" where
  "hashString str = \<bar>foldl hashString_step 0 str\<bar>"

text \<open>
  The hash in the words of the specification: \<open>h = h * 31 + codeUnit\<close> in 32-bit wrapping
  arithmetic, read as a signed value, absolute value at the end.
\<close>

definition Hasher_poly :: "jsstring \<Rightarrow> 32 word" where
  "Hasher_poly str = foldl (\<lambda>h c. h * 31 + ucast c) 0 str"

definition Hasher_spec :: "jsstring \<Rightarrow> int" where
  "Hasher_spec str = \<bar>sint (Hasher_poly str)\<bar>"

text \<open>The value of the \<open>n\<close>-th call (from 0) of a closure created with \<open>seed\<close>.\<close>

fun draw :: "rng \<Rightarrow> nat \<Rightarrow> number" where
  "draw g 0 = fst (rand g)"
| "draw g (Suc n) = draw (snd (rand g)) n"

section \<open>The vector document\<close>

text \<open>
  The generated SVG text is kept as its structure: an element is a tag with its attributes
  in the order of the template. An interpolated number is kept as the number itself
  (\<open>Num\<close>), an interpolated palette entry as \<open>Color\<close> (\<open>None\<close> where the source would print
  \<open>undefined\<close>), literal attribute text as \<open>Str\<close>. The path of an organic blob is kept as
  the values it is computed from (centre, radius, the six variations); the path itself
  needs \<open>Math.cos\<close> and \<open>Math.sin\<close> and is computed by \<open>generateOrganic_path\<close> below.
\<close>

datatype pathcmd =
    MoveTo number number
  | LineTo number number
  | QuadTo number number number number
  | ClosePath

datatype attr =
    Num number
  | Str string
  | Color "string option"
  | Points "(number \<times> number) list"
  | Rotate number number number
  | Path "pathcmd list"
  | Blob number number number "number list"

text \<open>
  \<open>Elem\<close> is a self-closing element \<open><tag k="v" ... />\<close>; \<open>TextElem\<close> is an element with
  text content, \<open><tag k="v" ...>content</tag>\<close>.
\<close>

datatype elem =
    Elem string "(string \<times> attr) list"
  | TextElem string "(string \<times> attr) list" jsstring

text \<open>
  \<open>TypeError\<close> is the exception a property read on \<open>undefined\<close> throws; \<open>RangeError\<close>
  (\<open>Invalid string length\<close>) is the exception a string concatenation throws when its
  result would be longer than the engine allows. \<open>InvalidCanvasSize\<close> is the error the
  specification names; no statement of the source constructs it.
\<close>

datatype error = TypeError | RangeError | InvalidCanvasSize

record document =
  canvas :: number
  gradient :: "(string \<times> string option \<times> rat) list"
  background :: elem
  elements :: "elem list"

text \<open>\<open>palette[Math.floor(r * palette.length)]\<close>\<close>

definition pick :: "'a list \<Rightarrow> number \<Rightarrow> 'a option" where
  "pick xs r = jsidx xs (Math_floor (jmul r (of_nat (length xs))))"

section \<open>The renderers\<close>

definition generateGeometric_shape ::
  "string list \<Rightarrow> number \<Rightarrow> elem list \<times> rng \<Rightarrow> elem list \<times> rng" where
  "generateGeometric_shape palette sz = (\<lambda>(svg, g).
     let (r, g) = rand g; color = pick palette r;
         (r, g) = rand g; opacity = jadd (lit (3 / 10)) (jmul r (lit (5 / 10)));
         (r, g) = rand g; x = jmul r sz;
         (r, g) = rand g; y = jmul r sz;
         (r, g) = rand g
     in if r > lit (5 / 10) then
          (let (r, g) = rand g; s = jadd 30 (jmul r 80)
           in (svg @ [Elem ''polygon''
                 [(''points'', Points [(x, jsub y s), (jsub x s, jadd y s), (jadd x s, jadd y s)]),
                  (''fill'', Color color), (''opacity'', Num opacity)]], g))
        else
          (let (r, g) = rand g
           in if r > lit (5 / 10) then
                (let (r, g) = rand g; w = jadd 30 (jmul r 100);
                     (r, g) = rand g; h = jadd 30 (jmul r 100);
                     (r, g) = rand g; angle = jmul r 360
                 in (svg @ [Elem ''rect''
                       [(''x'', Num x), (''y'', Num y), (''width'', Num w), (''height'', Num h),
                        (''fill'', Color color), (''opacity'', Num opacity),
                        (''transform'', Rotate angle (jadd x (jdiv w 2)) (jadd y (jdiv h 2)))]], g))
              else
                (let (r, g) = rand g; rad = jadd 20 (jmul r 60)
                 in (svg @ [Elem ''circle''
                       [(''cx'', Num x), (''cy'', Num y), (''r'', Num rad),
                        (''fill'', Color color), (''opacity'', Num opacity)]], g))))"

definition generateGeometric :: "rng \<Rightarrow> string list \<Rightarrow> number \<Rightarrow> elem list \<times> rng" where
  "generateGeometric g palette sz =
     (let (r, g) = rand g; shapes = jadd 8 (Math_floor (jmul r 12))
      in for_loop 0 shapes (\<lambda>i. generateGeometric_shape palette sz) ([], g))"

definition generateOrganic_point :: "number list \<times> rng \<Rightarrow> number list \<times> rng" where
  "generateOrganic_point = (\<lambda>(points, g).
     let (r, g) = rand g; variation = jadd (lit (7 / 10)) (jmul r (lit (6 / 10)))
     in (points @ [variation], g))"

definition generateOrganic_blob ::
  "string list \<Rightarrow> number \<Rightarrow> elem list \<times> rng \<Rightarrow> elem list \<times> rng" where
  "generateOrganic_blob palette sz = (\<lambda>(svg, g).
     let (r, g) = rand g; color = pick palette r;
         (r, g) = rand g; opacity = jadd (lit (4 / 10)) (jmul r (lit (4 / 10)));
         (r, g) = rand g; cx = jmul r sz;
         (r, g) = rand g; cy = jmul r sz;
         (r, g) = rand g; rad = jadd 40 (jmul r 100);
         numPoints = 6;
         (points, g) = for_loop 0 numPoints (\<lambda>j. generateOrganic_point) ([], g)
     in (svg @ [Elem ''path''
           [(''d'', Blob cx cy rad points), (''fill'', Color color), (''opacity'', Num opacity)]], g))"

definition generateOrganic :: "rng \<Rightarrow> string list \<Rightarrow> number \<Rightarrow> elem list \<times> rng" where
  "generateOrganic g palette sz =
     (let (r, g) = rand g; blobs = jadd 5 (Math_floor (jmul r 8))
      in for_loop 0 blobs (\<lambda>i. generateOrganic_blob palette sz) ([], g))"

definition generatePixel_cell ::
  "string list \<Rightarrow> number \<Rightarrow> int \<Rightarrow> int \<Rightarrow> elem list \<times> rng \<Rightarrow> elem list \<times> rng" where
  "generatePixel_cell palette pixelSize x y = (\<lambda>(svg, g).
     let (r, g) = rand g
     in if r > lit (4 / 10) then
          (let (r, g) = rand g; color = pick palette r;
               (r, g) = rand g; opacity = jadd (lit (6 / 10)) (jmul r (lit (4 / 10)))
           in (svg @ [Elem ''rect''
                 [(''x'', Num (jmul (of_int x) pixelSize)), (''y'', Num (jmul (of_int y) pixelSize)),
                  (''width'', Num pixelSize), (''height'', Num pixelSize),
                  (''fill'', Color color), (''opacity'', Num opacity)]], g))
        else (svg, g))"

definition generatePixel :: "rng \<Rightarrow> string list \<Rightarrow> number \<Rightarrow> elem list \<times> rng" where
  "generatePixel g palette sz =
     (let pixelSize = 20; grid = jdiv sz pixelSize
      in for_loop 0 grid
           (\<lambda>x. for_loop 0 grid (\<lambda>y. generatePixel_cell palette pixelSize x y)) ([], g))"

text \<open>
  The cells the two loops of \<open>generatePixel\<close> visit, in the order they visit them: the
  same loop nest with the body replaced by recording \<open>(x, y)\<close>.
\<close>

definition generatePixel_cells :: "number \<Rightarrow> (int \<times> int) list" where
  "generatePixel_cells sz =
     (let pixelSize = 20; grid = jdiv sz pixelSize
      in for_loop 0 grid (\<lambda>x. for_loop 0 grid (\<lambda>y cells. cells @ [(x, y)])) [])"

definition generateCircuit_segment ::
  "number \<times> number \<times> pathcmd list \<times> rng \<Rightarrow> number \<times> number \<times> pathcmd list \<times> rng" where
  "generateCircuit_segment = (\<lambda>(x, y, path, g).
     let (r, g) = rand g; dir = Math_floor (jmul r 4);
         (r, g) = rand g; len = jadd 30 (jmul r 80);
         (x, y) = (if dir = 0 then (jadd x len, y)
                   else if dir = 1 then (jsub x len, y)
                   else if dir = 2 then (x, jadd y len)
                   else if dir = 3 then (x, jsub y len)
                   else (x, y))
     in (x, y, path @ [LineTo x y], g))"

definition generateCircuit_line ::
  "string list \<Rightarrow> number \<Rightarrow> elem list \<times> rng \<Rightarrow> elem list \<times> rng" where
  "generateCircuit_line palette sz = (\<lambda>(svg, g).
     let (r, g) = rand g; color = pick palette r;
         (r, g) = rand g; x = jmul r sz;
         (r, g) = rand g; y = jmul r sz;
         path = [MoveTo x y];
         (r, g) = rand g; segments = jadd 3 (Math_floor (jmul r 5));
         (x, y, path, g) = for_loop 0 segments (\<lambda>j. generateCircuit_segment) (x, y, path, g)
     in (svg @ [Elem ''path''
                  [(''d'', Path path), (''stroke'', Color color), (''stroke-width'', Str ''3''),
                   (''fill'', Str ''none''), (''opacity'', Str ''0.8'')],
                Elem ''circle''
                  [(''cx'', Num x), (''cy'', Num y), (''r'', Str ''6''), (''fill'', Color color)]], g))"

definition generateCircuit_node ::
  "string list \<Rightarrow> number \<Rightarrow> elem list \<times> rng \<Rightarrow> elem list \<times> rng" where
  "generateCircuit_node palette sz = (\<lambda>(svg, g).
     let (r, g) = rand g; color = pick palette r;
         (r, g) = rand g; x = jmul r sz;
         (r, g) = rand g; y = jmul r sz;
         (r, g) = rand g; rad = jadd 4 (jmul r 8)
     in (svg @ [Elem ''circle''
           [(''cx'', Num x), (''cy'', Num y), (''r'', Num rad),
            (''fill'', Color color), (''opacity'', Str ''0.9'')]], g))"

definition generateCircuit :: "rng \<Rightarrow> string list \<Rightarrow> number \<Rightarrow> elem list \<times> rng" where
  "generateCircuit g palette sz =
     (let (r, g) = rand g; lines = jadd 15 (Math_floor (jmul r 20));
          (svg, g) = for_loop 0 lines (\<lambda>i. generateCircuit_line palette sz) ([], g)
      in for_loop 0 10 (\<lambda>i. generateCircuit_node palette sz) (svg, g))"

definition stacksPalette :: "string list" where
  "stacksPalette = [''#5c73f2'', ''#00d9ff'', ''#f7931a'', ''#ffffff'', ''#1a1a2e'']"

definition generateStacks_layer :: "number \<Rightarrow> int \<Rightarrow> elem list \<times> rng \<Rightarrow> elem list \<times> rng" where
  "generateStacks_layer sz i = (\<lambda>(svg, g).
     let color = jsidx stacksPalette (of_int (i mod int (length stacksPalette)));
         layerY = jadd 50 (jmul (of_int i) 70);
         (r, g) = rand g; width = jadd 200 (jmul r 100);
         (r, g) = rand g; height = jadd 40 (jmul r 20);
         (r, g) = rand g;
         x = jadd (jdiv (jsub sz width) 2) (jmul (jsub r (lit (5 / 10))) 40)
     in (svg @ [Elem ''rect''
           [(''x'', Num x), (''y'', Num layerY), (''width'', Num width), (''height'', Num height),
            (''rx'', Str ''8''), (''fill'', Color color),
            (''opacity'', Num (jsub (lit (7 / 10)) (jmul (of_int i) (lit (1 / 10)))))]], g))"

definition generateStacks_particle :: "number \<Rightarrow> elem list \<times> rng \<Rightarrow> elem list \<times> rng" where
  "generateStacks_particle sz = (\<lambda>(svg, g).
     let (r, g) = rand g; color = pick stacksPalette r;
         (r, g) = rand g; x = jmul r sz;
         (r, g) = rand g; y = jmul r sz;
         (r, g) = rand g; rad = jadd 2 (jmul r 6);
         (r, g) = rand g; opacity = jadd (lit (3 / 10)) (jmul r (lit (5 / 10)))
     in (svg @ [Elem ''circle''
           [(''cx'', Num x), (''cy'', Num y), (''r'', Num rad),
            (''fill'', Color color), (''opacity'', Num opacity)]], g))"

definition generateStacks :: "rng \<Rightarrow> string list \<Rightarrow> number \<Rightarrow> elem list \<times> rng" where
  "generateStacks g palette sz =
     (let (r, g) = rand g; btcSize = jadd 60 (jmul r 40);
          cx = jdiv sz 2;
          cy = jdiv sz 2;
          (svg, g) = for_loop 0 5 (generateStacks_layer sz) ([], g);
          svg = svg @ [TextElem ''text''
            [(''x'', Num cx), (''y'', Num (jadd cy 20)), (''font-family'', Str ''Arial Black''),
             (''font-size'', Num btcSize), (''fill'', Str ''#f7931a''),
             (''text-anchor'', Str ''middle''), (''opacity'', Str ''0.9'')]
            [0x20BF]]
      in for_loop 0 20 (\<lambda>i. generateStacks_particle sz) (svg, g))"

section \<open>The engine and the length of the document text\<close>

text \<open>
  What the program takes from the JavaScript engine and not from its own source: the
  number of code units in the decimal text of a number (\<open>Number::toString\<close>), the
  implementation-approximated \<open>Math.cos\<close> and \<open>Math.sin\<close>, and the greatest length of a
  string (\<open>String::kMaxLength\<close> in V8, \<open>2 ^ 29 - 24\<close> on 64-bit builds and \<open>2 ^ 28 - 16\<close> on
  32-bit ones). They are parameters of the model. Limits of the host on memory and
  running time are not modelled.
\<close>

record engine =
  number_length :: "number \<Rightarrow> nat"
  Math_cos :: "number \<Rightarrow> number"
  Math_sin :: "number \<Rightarrow> number"
  max_string_length :: nat

text \<open>\<open>Math.PI\<close>, the double nearest to \<open>\<pi>\<close>.\<close>

definition Math_PI :: number where
  "Math_PI = 884279719003555 / 2 ^ 48"

text \<open>
  The path of a blob of \<open>generateOrganic\<close>: the boundary points from the centre, the radius
  and the variations, then the quadratic segments through the midpoints of consecutive
  points. The source reads \<open>points[0]\<close>, which needs a first point; there are always six.
\<close>

definition generateOrganic_points ::
  "engine \<Rightarrow> number \<Rightarrow> number \<Rightarrow> number \<Rightarrow> number list \<Rightarrow> (number \<times> number) list" where
  "generateOrganic_points eng cx cy r variations =
     map (\<lambda>(j, variation).
            let numPoints = 6;
                angle = jmul (jmul (jdiv (of_nat j) numPoints) Math_PI) 2;
                px = jadd cx (jmul (jmul (Math_cos eng angle) r) variation);
                py = jadd cy (jmul (jmul (Math_sin eng angle) r) variation)
            in (px, py))
         (zip [0..<length variations] variations)"

definition generateOrganic_path ::
  "engine \<Rightarrow> number \<Rightarrow> number \<Rightarrow> number \<Rightarrow> number list \<Rightarrow> pathcmd list" where
  "generateOrganic_path eng cx cy r variations =
     (let points = generateOrganic_points eng cx cy r variations
      in case points of
           [] \<Rightarrow> []
         | p0 # rest \<Rightarrow>
             MoveTo (fst p0) (snd p0) #
             map (\<lambda>j. let p1 = points ! j;
                         p2 = points ! ((j + 1) mod length points);
                         mx = jdiv (jadd (fst p1) (fst p2)) 2;
                         my = jdiv (jadd (snd p1) (snd p2)) 2
                     in QuadTo (fst p1) (snd p1) mx my)
                 [0..<length points] @
             [ClosePath])"

text \<open>
  The number of code units of the text the templates produce. A path is \<open>M x y\<close>,
  then \<open> L x y\<close> or \<open> Q x y mx my\<close> for each segment, then \<open> Z\<close>; the points of a polygon are
  \<open>x,y\<close> pairs separated by blanks; an \<open>undefined\<close> colour prints as \<open>undefined\<close>; an attribute
  is a blank, the name, \<open>="\<close>, the value and the closing quote.
\<close>

fun pathcmd_length :: "engine \<Rightarrow> pathcmd \<Rightarrow> nat" where
  "pathcmd_length eng (MoveTo x y) = 2 + number_length eng x + 1 + number_length eng y"
| "pathcmd_length eng (LineTo x y) = 3 + number_length eng x + 1 + number_length eng y"
| "pathcmd_length eng (QuadTo x y mx my) =
     3 + number_length eng x + 1 + number_length eng y + 1 + number_length eng mx + 1 +
     number_length eng my"
| "pathcmd_length eng ClosePath = 2"

definition color_length :: "string option \<Rightarrow> nat" where
  "color_length c = (case c of None \<Rightarrow> 9 | Some t \<Rightarrow> length t)"

fun attr_length :: "engine \<Rightarrow> attr \<Rightarrow> nat" where
  "attr_length eng (Num x) = number_length eng x"
| "attr_length eng (Str t) = length t"
| "attr_length eng (Color c) = color_length c"
| "attr_length eng (Points ps) =
     sum_list (map (\<lambda>(x, y). number_length eng x + 1 + number_length eng y) ps) + (length ps - 1)"
| "attr_length eng (Rotate a x y) =
     7 + number_length eng a + 1 + number_length eng x + 1 + number_length eng y + 1"
| "attr_length eng (Path cmds) = sum_list (map (pathcmd_length eng) cmds)"
| "attr_length eng (Blob cx cy r variations) =
     sum_list (map (pathcmd_length eng) (generateOrganic_path eng cx cy r variations))"

fun elem_length :: "engine \<Rightarrow> elem \<Rightarrow> nat" where
  "elem_length eng (Elem tag attrs) =
     1 + length tag + sum_list (map (\<lambda>(k, v). 1 + length k + 2 + attr_length eng v + 1) attrs) + 2"
| "elem_length eng (TextElem tag attrs content) =
     1 + length tag + sum_list (map (\<lambda>(k, v). 1 + length k + 2 + attr_length eng v + 1) attrs) + 1 +
     length content + 2 + length tag + 1"

definition svg_length :: "engine \<Rightarrow> elem list \<Rightarrow> nat" where
  "svg_length eng svg = sum_list (map (elem_length eng) svg)"

text \<open>
  The template of \<open>generateArt\<close> has 363 code units of its own; the size is printed four
  times, and each stop prints its colour.
\<close>

definition document_length :: "engine \<Rightarrow> document \<Rightarrow> nat" where
  "document_length eng doc =
     363 + 4 * number_length eng (canvas doc) +
     sum_list (map (\<lambda>(off, c, op). color_length c) (gradient doc)) +
     svg_length eng (elements doc)"

section \<open>generateArt\<close>

text \<open>
  The first four statements of \<open>generateArt\<close>: the hash, the closure, the palette and the
  background colour. Reading \<open>palette.length\<close> of an \<open>undefined\<close> palette throws a TypeError.
\<close>

definition generateArt_colors :: "jsstring \<Rightarrow> error + (string list \<times> string option \<times> rng)" where
  "generateArt_colors seed =
     (let hash = hashString seed;
          g = seededRandom hash;
          (r, g) = rand g
      in case pick PALETTES r of
           None \<Rightarrow> Inl TypeError
         | Some palette \<Rightarrow>
             (let (r, g) = rand g; bgColor = pick palette r
              in Inr (palette, bgColor, g)))"

text \<open>
  The rest of \<open>generateArt\<close>, as far as the structure of the document goes: the \<open>switch\<close>
  over the style and the template. The size is always passed here; the source's default
  is 400.
\<close>

definition generateArt_document :: "jsstring \<Rightarrow> jsstring \<Rightarrow> number \<Rightarrow> error + document" where
  "generateArt_document seed style sz =
     (case generateArt_colors seed of
        Inl e \<Rightarrow> Inl e
      | Inr (palette, bgColor, g) \<Rightarrow>
          (let elements =
                 (if style = js ''geometric'' then fst (generateGeometric g palette sz)
                  else if style = js ''organic'' then fst (generateOrganic g palette sz)
                  else if style = js ''pixel'' then fst (generatePixel g palette sz)
                  else if style = js ''circuit'' then fst (generateCircuit g palette sz)
                  else if style = js ''stacks'' then fst (generateStacks g palette sz)
                  else fst (generateGeometric g palette sz))
           in Inr \<lparr>canvas = sz,
                   gradient = [(''0%'', jsidx palette 0, 8 / 10), (''100%'', jsidx palette 1, 8 / 10)],
                   background = Elem ''rect''
                     [(''width'', Num sz), (''height'', Num sz), (''fill'', Str ''url(#bg)'')],
                   elements = elements\<rparr>))"

text \<open>
  \<open>generateArt\<close> itself. The source builds the document as one string, by concatenation
  and template literals, and every string it builds on the way is a part of the final
  text. So some concatenation throws \<open>RangeError\<close> exactly when the final text would be
  longer than the engine allows, and otherwise the document is returned.
\<close>

definition generateArt :: "engine \<Rightarrow> jsstring \<Rightarrow> jsstring \<Rightarrow> number \<Rightarrow> error + document" where
  "generateArt eng seed style sz =
     (case generateArt_document seed style sz of
        Inl e \<Rightarrow> Inl e
      | Inr doc \<Rightarrow>
          if document_length eng doc \<le> max_string_length eng then Inr doc else Inl RangeError)"

section \<open>generateTraits\<close>

record trait =
  trait_type :: jsstring
  trait_value :: "jsstring option"

definition generateTraits :: "jsstring \<Rightarrow> jsstring \<Rightarrow> trait list" where
  "generateTraits seed style =
     (let hash = hashString seed;
          g = seededRandom hash;
          rarities = map js [''Common'', ''Uncommon'', ''Rare'', ''Epic'', ''Legendary''];
          backgrounds = map js [''Sunset'', ''Midnight'', ''Ocean'', ''Forest'', ''Cosmic''];
          moods = map js [''Calm'', ''Energetic'', ''Mysterious'', ''Playful'', ''Bold''];
          styleName = (case STYLES_name style of
                         None \<Rightarrow> style
                       | Some n \<Rightarrow> if n = [] then style else n);
          (r, g) = rand g; rarity = pick rarities r;
          (r, g) = rand g; bg = pick backgrounds r;
          (r, g) = rand g; mood = pick moods r
      in [\<lparr>trait_type = js ''Style'', trait_value = Some styleName\<rparr>,
          \<lparr>trait_type = js ''Rarity'', trait_value = rarity\<rparr>,
          \<lparr>trait_type = js ''Background'', trait_value = bg\<rparr>,
          \<lparr>trait_type = js ''Mood'', trait_value = mood\<rparr>,
          \<lparr>trait_type = js ''Generation'', trait_value = Some (js ''Genesis'')\<rparr>])"

text \<open>Observations on documents used in the statements below.\<close>

definition attr_defined :: "string \<times> attr \<Rightarrow> bool" where
  "attr_defined a = (snd a \<noteq> Color None)"

fun elem_defined :: "elem \<Rightarrow> bool" where
  "elem_defined (Elem t as) = list_all attr_defined as"
| "elem_defined (TextElem t as c) = list_all attr_defined as"

definition gradient_colors :: "error + document \<Rightarrow> string option list" where
  "gradient_colors res = (case res of Inl e \<Rightarrow> [] | Inr doc \<Rightarrow> map (\<lambda>(off, c, op). c) (gradient doc))"

text \<open>
  The invariant of the rendering loops: the closure state is not negative and no element
  drawn so far has an undefined colour.
\<close>

definition render_ok :: "elem list \<times> rng \<Rightarrow> bool" where
  "render_ok p = (0 \<le> snd p \<and> list_all elem_defined (fst p))"

section \<open>Bounds and the rounding in the words of the specification\<close>

text \<open>
  Upper bounds on the length of the text of an attribute and of an element, valid when no
  number prints with more than 25 code units (the longest decimal text of a double,
  for instance \<open>-0.0000012345678901234567\<close>) and
  no colour with more than 9 (\<open>undefined\<close>; the palette entries have 7).
\<close>

definition attr_short :: "string \<times> attr \<Rightarrow> bool" where
  "attr_short a = (case snd a of Color c \<Rightarrow> color_length c \<le> 9 | _ \<Rightarrow> True)"

fun elem_short :: "elem \<Rightarrow> bool" where
  "elem_short (Elem t as) = list_all attr_short as"
| "elem_short (TextElem t as c) = list_all attr_short as"

fun attr_bound :: "attr \<Rightarrow> nat" where
  "attr_bound (Num x) = 25"
| "attr_bound (Str t) = length t"
| "attr_bound (Color c) = 9"
| "attr_bound (Points ps) = 52 * length ps"
| "attr_bound (Rotate a x y) = 85"
| "attr_bound (Path cmds) = 106 * length cmds"
| "attr_bound (Blob cx cy r variations) = 106 * (length variations + 2)"

fun elem_bound :: "elem \<Rightarrow> nat" where
  "elem_bound (Elem tag attrs) =
     3 + length tag + sum_list (map (\<lambda>(k, v). 4 + length k + attr_bound v) attrs)"
| "elem_bound (TextElem tag attrs content) =
     5 + 2 * length tag + length content + sum_list (map (\<lambda>(k, v). 4 + length k + attr_bound v) attrs)"

text \<open>
  Rounding an integer to a double, said on integers: an integer of magnitude up to
  \<open>2 ^ 53\<close> is kept; a larger one, of \<open>53 + k\<close> bits, becomes the nearest multiple of
  \<open>2 ^ k\<close>, the even one of the two when it lies halfway.
\<close>

definition round53 :: "int \<Rightarrow> int" where
  "round53 n = (if \<bar>n\<bar> \<le> 2 ^ 53 then n
                else let k = nat (bitlen \<bar>n\<bar> - 53)
                     in sgn n * (rne (of_int \<bar>n\<bar> / 2 ^ k) * 2 ^ k))"

text \<open>
  An engine to instantiate the statements with: V8's string limit on 64-bit builds, every
  number printed with 25 code units, and constant stand-ins for \<open>Math.cos\<close> and \<open>Math.sin\<close>.
\<close>

definition sample_engine :: engine where
  "sample_engine =
     \<lparr>number_length = (\<lambda>x. 25), Math_cos = (\<lambda>x. 1), Math_sin = (\<lambda>x. 0),
      max_string_length = 2 ^ 29 - 24\<rparr>"

section \<open>Rounding to a double\<close>

lemma bitlen_powi_bounds:
  assumes "0 < (p::int)"
  shows "(2::rat) powi (bitlen p - 1) \<le> of_int p" and "of_int p < (2::rat) powi bitlen p"
proof -
  from bitlen_bounds [OF assms]
  have a: "2 ^ nat (bitlen p - 1) \<le> p" and b: "p < 2 ^ nat (bitlen p)" by simp_all
  have pos: "1 \<le> bitlen p" using assms bitlen_eq_zero_iff [of p] bitlen_nonneg [of p] by linarith
  from a have "(of_int (2 ^ nat (bitlen p - 1)) :: rat) \<le> of_int p"
    by (simp only: of_int_le_iff)
  then show "(2::rat) powi (bitlen p - 1) \<le> of_int p"
    using pos by (simp add: power_int_nonneg_exp)
  from b have "(of_int p :: rat) < of_int (2 ^ nat (bitlen p))"
    by (simp only: of_int_less_iff)
  then show "of_int p < (2::rat) powi bitlen p"
    using pos by (simp add: power_int_nonneg_exp)
qed

lemma binexp_bounds:
  assumes "0 < x"
  shows "2 powi binexp x \<le> x" and "x < 2 powi (binexp x + 1)"
proof -
  obtain p q where pq: "quotient_of x = (p, q)" by (cases "quotient_of x")
  then have q: "0 < q" and x: "x = of_int p / of_int q"
    by (auto dest: quotient_of_denom_pos quotient_of_div)
  with assms have p: "0 < p" by (simp add: zero_less_divide_iff)
  define d where "d = bitlen p - bitlen q"
  have qr: "(0::rat) < of_int q" using q by simp
  have up: "x < 2 powi (d + 1)"
  proof -
    have "of_int p < (2::rat) powi bitlen p" by (rule bitlen_powi_bounds [OF p])
    also have "\<dots> = 2 powi (d + 1) * 2 powi (bitlen q - 1)"
      by (simp add: d_def power_int_add [symmetric])
    also have "\<dots> \<le> 2 powi (d + 1) * of_int q"
      using bitlen_powi_bounds(1) [OF q] by (intro mult_left_mono) simp_all
    finally show ?thesis using qr by (simp add: x pos_divide_less_eq)
  qed
  have lo: "2 powi (d - 1) \<le> x"
  proof -
    have "(2::rat) powi (d - 1) * of_int q \<le> 2 powi (d - 1) * 2 powi bitlen q"
      using bitlen_powi_bounds(2) [OF q] by (intro mult_left_mono) simp_all
    also have "\<dots> = 2 powi (bitlen p - 1)"
      by (simp add: d_def power_int_add [symmetric])
    also have "\<dots> \<le> of_int p" by (rule bitlen_powi_bounds [OF p])
    finally show ?thesis using qr by (simp add: x pos_le_divide_eq)
  qed
  have e: "binexp x = (if 2 powi d \<le> x then d else d - 1)"
    by (simp add: binexp_def pq d_def Let_def)
  show "2 powi binexp x \<le> x" using lo by (simp add: e)
  show "x < 2 powi (binexp x + 1)" using up by (auto simp: e not_le)
qed

lemma pow2_less_cancel: "(2::rat) powi a < 2 powi b \<Longrightarrow> a < b"
proof (rule ccontr)
  assume l: "(2::rat) powi a < 2 powi b" and "\<not> a < b"
  then have "b \<le> a" by simp
  then have "(2::rat) powi b \<le> 2 powi a" by (rule power_int_increasing) simp
  with l show False by simp
qed

lemma binexp_unique:
  assumes "2 powi e \<le> x" "x < 2 powi (e + 1)"
  shows "binexp x = e"
proof -
  have x: "0 < x" using assms(1) zero_less_power_int [of "2::rat" e] by linarith
  have "(2::rat) powi e < 2 powi (binexp x + 1)"
    using assms(1) binexp_bounds(2) [OF x] by linarith
  then have a: "e < binexp x + 1" by (rule pow2_less_cancel)
  have "(2::rat) powi binexp x < 2 powi (e + 1)"
    using assms(2) binexp_bounds(1) [OF x] by linarith
  then have b: "binexp x < e + 1" by (rule pow2_less_cancel)
  from a b show ?thesis by linarith
qed


lemma rne_of_int [simp]: "rne (of_int k) = k"
  by (simp add: rne_def)

lemma rne_cases:
  "rne m = \<lfloor>m\<rfloor> \<and> m - of_int \<lfloor>m\<rfloor> \<le> 1 / 2 \<or> rne m = \<lfloor>m\<rfloor> + 1 \<and> 1 / 2 \<le> m - of_int \<lfloor>m\<rfloor>"
  by (simp add: rne_def Let_def)

lemma rne_mono:
  assumes "x \<le> y"
  shows "rne x \<le> rne y"
proof (cases "\<lfloor>x\<rfloor> = \<lfloor>y\<rfloor>")
  case True
  then have "x - of_int \<lfloor>x\<rfloor> \<le> y - of_int \<lfloor>y\<rfloor>" using assms by simp
  then show ?thesis using True by (auto simp: rne_def Let_def)
next
  case False
  then have "\<lfloor>x\<rfloor> + 1 \<le> \<lfloor>y\<rfloor>" using floor_mono [OF assms] by linarith
  moreover have "rne x \<le> \<lfloor>x\<rfloor> + 1" using rne_cases [of x] by linarith
  moreover have "\<lfloor>y\<rfloor> \<le> rne y" using rne_cases [of y] by linarith
  ultimately show ?thesis by linarith
qed

lemma fl_zero [simp]: "fl 0 = 0"
  by (simp add: fl_def)

lemma fl_minus: "fl (- x) = - fl x"
  by (simp add: fl_def Let_def)

lemma fl_pos:
  "0 < x \<Longrightarrow> fl x = of_int (rne (x / 2 powi (binexp x - 52))) * 2 powi (binexp x - 52)"
  by (simp add: fl_def Let_def)

lemma fl_binade:
  assumes "2 powi e \<le> x" "x < 2 powi (e + 1)"
  shows "fl x = of_int (rne (x / 2 powi (e - 52))) * 2 powi (e - 52)"
    and "2 powi e \<le> fl x" and "fl x \<le> 2 powi (e + 1)"
proof -
  have x: "0 < x" using assms(1) zero_less_power_int [of "2::rat" e] by linarith
  have e: "binexp x = e" using assms by (rule binexp_unique)
  define u :: rat where "u = 2 powi (e - 52)"
  have u: "0 < u" by (simp add: u_def)
  show eq: "fl x = of_int (rne (x / 2 powi (e - 52))) * 2 powi (e - 52)"
    using x e by (simp add: fl_pos)
  have lo: "(2::rat) powi e = of_int (2 ^ 52) * u"
    by (simp add: u_def power_int_diff)
  have hi: "(2::rat) powi (e + 1) = of_int (2 ^ 53) * u"
    by (simp add: u_def power_int_diff power_int_add)
  have "of_int (2 ^ 52) \<le> x / u" using assms(1) u by (simp add: lo pos_le_divide_eq)
  then have "rne (of_int (2 ^ 52)) \<le> rne (x / u)" by (rule rne_mono)
  then have "(of_int (2 ^ 52) :: rat) \<le> of_int (rne (x / u))"
    by (simp only: rne_of_int of_int_le_iff)
  then have "of_int (2 ^ 52) * u \<le> of_int (rne (x / u)) * u"
    using u by (simp only: mult_le_cancel_right_pos)
  then show "2 powi e \<le> fl x" by (simp only: eq lo u_def)
  have "x / u \<le> of_int (2 ^ 53)" using assms(2) u by (simp add: hi pos_divide_le_eq)
  then have "rne (x / u) \<le> rne (of_int (2 ^ 53))" by (rule rne_mono)
  then have "(of_int (rne (x / u)) :: rat) \<le> of_int (2 ^ 53)"
    by (simp only: rne_of_int of_int_le_iff)
  then have "of_int (rne (x / u)) * u \<le> of_int (2 ^ 53) * u"
    using u by (simp only: mult_le_cancel_right_pos)
  then show "fl x \<le> 2 powi (e + 1)" by (simp only: eq hi u_def)
qed

lemma fl_mono_pos:
  assumes "0 < x" "x \<le> y"
  shows "fl x \<le> fl y"
proof -
  have y: "0 < y" using assms by linarith
  note bx = binexp_bounds [OF assms(1)] and bdy = binexp_bounds [OF y]
  have "(2::rat) powi binexp x < 2 powi (binexp y + 1)" using bx(1) bdy(2) assms(2) by linarith
  then have le: "binexp x \<le> binexp y" using pow2_less_cancel by fastforce
  show ?thesis
  proof (cases "binexp x = binexp y")
    case True
    have "x / 2 powi (binexp y - 52) \<le> y / 2 powi (binexp y - 52)"
      using assms(2) by (simp add: divide_right_mono)
    then have "rne (x / 2 powi (binexp y - 52)) \<le> rne (y / 2 powi (binexp y - 52))"
      by (rule rne_mono)
    then show ?thesis
      using True by (simp add: fl_pos assms(1) y)
  next
    case False
    with le have "binexp x + 1 \<le> binexp y" by linarith
    then have "(2::rat) powi (binexp x + 1) \<le> 2 powi binexp y"
      by (rule power_int_increasing) simp
    moreover have "fl x \<le> 2 powi (binexp x + 1)" using bx by (rule fl_binade(3))
    moreover have "2 powi binexp y \<le> fl y" using bdy by (rule fl_binade(2))
    ultimately show ?thesis by linarith
  qed
qed

lemma fl_nonneg: "0 \<le> x \<Longrightarrow> 0 \<le> fl x"
proof (cases "x = 0")
  case False
  assume "0 \<le> x"
  with False have x: "0 < x" by simp
  have "(0::rat) \<le> 2 powi binexp x" by simp
  also have "\<dots> \<le> fl x" using binexp_bounds [OF x] by (rule fl_binade(2))
  finally show ?thesis .
qed simp

lemma fl_mono:
  assumes "x \<le> y"
  shows "fl x \<le> fl y"
proof -
  consider "0 < x" | "x \<le> 0" "0 \<le> y" | "y < 0" by linarith
  then show ?thesis
  proof cases
    case 1
    then show ?thesis using assms by (rule fl_mono_pos)
  next
    case 2
    have "fl x = - fl (- x)" by (simp add: fl_minus)
    moreover have "0 \<le> fl (- x)" using 2(1) by (intro fl_nonneg) simp
    moreover have "0 \<le> fl y" using 2(2) by (rule fl_nonneg)
    ultimately show ?thesis by linarith
  next
    case 3
    then have "fl (- y) \<le> fl (- x)" using assms by (intro fl_mono_pos) simp_all
    then show ?thesis by (simp add: fl_minus)
  qed
qed


lemma fl_repr_pos:
  assumes "0 < k" "k < 2 ^ 53"
  shows "fl (of_int k * 2 powi z) = of_int k * 2 powi z"
proof -
  define x :: rat where "x = of_int k * 2 powi z"
  have x: "0 < x" using assms(1) by (simp add: x_def)
  define e where "e = binexp x"
  note b = binexp_bounds [OF x, folded e_def]
  have "(of_int k :: rat) < of_int (2 ^ 53)" using assms(2) by (simp only: of_int_less_iff)
  then have "x < 2 ^ 53 * 2 powi z" by (simp add: x_def)
  also have "\<dots> = 2 powi (53 + z)" by (simp add: power_int_add)
  finally have "(2::rat) powi e < 2 powi (53 + z)" using b(1) by linarith
  then have "e < 53 + z" by (rule pow2_less_cancel)
  then have d: "0 \<le> z - (e - 52)" by linarith
  have "x / 2 powi (e - 52) = of_int k * 2 powi (z - (e - 52))"
    by (simp add: x_def power_int_diff)
  also have "\<dots> = of_int (k * 2 ^ nat (z - (e - 52)))"
    using d by (simp add: power_int_nonneg_exp)
  finally have "rne (x / 2 powi (e - 52)) = k * 2 ^ nat (z - (e - 52))"
    by (simp only: rne_of_int)
  then have "fl x = of_int (k * 2 ^ nat (z - (e - 52))) * 2 powi (e - 52)"
    using x by (simp add: fl_pos e_def)
  also have "\<dots> = of_int k * (2 powi (z - (e - 52)) * 2 powi (e - 52))"
    using d by (simp add: power_int_nonneg_exp)
  also have "\<dots> = x" by (simp add: x_def power_int_add [symmetric])
  finally show ?thesis by (simp add: x_def)
qed

lemma fl_pow2: "fl (2 powi z) = 2 powi z"
  using fl_repr_pos [of 1 z] by simp

lemma fl_repr:
  assumes "\<bar>k\<bar> \<le> 2 ^ 53"
  shows "fl (of_int k * 2 powi z) = of_int k * 2 powi z"
proof -
  have pos: "fl (of_int j * 2 powi z) = of_int j * 2 powi z" if "0 < j" "j \<le> 2 ^ 53" for j
  proof (cases "j = 2 ^ 53")
    case True
    have "of_int j * 2 powi z = (2::rat) powi (53 + z)"
      by (simp add: True power_int_add)
    then show ?thesis by (simp only: fl_pow2)
  next
    case False
    with that have "j < 2 ^ 53" by simp
    with that(1) show ?thesis by (rule fl_repr_pos)
  qed
  consider "0 < k" | "k = 0" | "k < 0" by linarith
  then show ?thesis
  proof cases
    case 1
    then show ?thesis using assms by (intro pos) simp_all
  next
    case 2
    then show ?thesis by simp
  next
    case 3
    then have "fl (of_int (- k) * 2 powi z) = of_int (- k) * 2 powi z"
      using assms by (intro pos) simp_all
    then have "fl (- (of_int k * 2 powi z)) = - (of_int k * 2 powi z)" by simp
    then show ?thesis by (simp only: fl_minus neg_equal_iff_equal)
  qed
qed

lemma fl_int_exact: "\<bar>n\<bar> \<le> 2 ^ 53 \<Longrightarrow> fl (of_int n) = of_int n"
  using fl_repr [of n 0] by simp

lemma fl_int_even:
  assumes "2 ^ 53 \<le> n"
  shows "\<exists>m. fl (of_int n) = of_int (2 * m) \<and> 2 ^ 52 \<le> m"
proof -
  define x :: rat where "x = of_int n"
  have "(of_int (2 ^ 53) :: rat) \<le> of_int n" using assms by (simp only: of_int_le_iff)
  then have n: "2 powi 53 \<le> x" by (simp add: x_def)
  then have x: "0 < x" by simp
  define e where "e = binexp x"
  note b = binexp_bounds [OF x, folded e_def]
  have "(2::rat) powi 53 < 2 powi (e + 1)" using n b(2) by linarith
  then have "53 < e + 1" by (rule pow2_less_cancel)
  then have e: "0 \<le> e - 53" by linarith
  define r where "r = rne (x / 2 powi (e - 52))"
  have "(2::rat) powi (e - 52) = 2 powi (e - 53) * 2"
    by (simp add: power_int_diff)
  also have "\<dots> = of_int (2 ^ nat (e - 53) * 2)"
    using e by (simp add: power_int_nonneg_exp)
  finally have "fl x = of_int r * of_int (2 ^ nat (e - 53) * 2)"
    using x by (simp add: fl_pos e_def r_def)
  then have eq: "fl x = of_int (2 * (r * 2 ^ nat (e - 53)))"
    by (simp add: mult_ac)
  have "fl (2 powi 53) \<le> fl x" using n by (rule fl_mono)
  then have "(2::rat) powi 53 \<le> fl x" by (simp only: fl_pow2)
  then have "(of_int (2 * 2 ^ 52) :: rat) \<le> of_int (2 * (r * 2 ^ nat (e - 53)))"
    by (simp add: eq)
  then have "2 * 2 ^ 52 \<le> 2 * (r * 2 ^ nat (e - 53))" by (simp only: of_int_le_iff)
  then have "2 ^ 52 \<le> r * 2 ^ nat (e - 53)" by simp
  with eq show ?thesis unfolding x_def by blast
qed


lemma lcg_exact_not_max:
  assumes "0 \<le> (s::int)" "s * 1103515245 + 12345 < 2 ^ 53"
  shows "(s * 1103515245 + 12345) mod 2 ^ 31 \<noteq> 2 ^ 31 - 1"
proof
  assume h: "(s * 1103515245 + 12345) mod 2 ^ 31 = 2 ^ 31 - 1"
  have s: "s \<le> 8162278" using assms(2) by simp
  have "(1857678181 * (s * 1103515245 + 12345)) mod 2 ^ 31
      = (1857678181 * ((s * 1103515245 + 12345) mod 2 ^ 31)) mod 2 ^ 31"
    by (simp only: mod_mult_right_eq)
  also have "\<dots> = 289805467" by (simp only: h) simp
  finally have a: "(1857678181 * (s * 1103515245 + 12345)) mod 2 ^ 31 = 289805467" .
  have "1857678181 * (s * 1103515245 + 12345) = s + 22933037144445 + 2 ^ 31 * (954594553 * s)"
    by (simp add: algebra_simps)
  then have "(s + 22933037144445) mod 2 ^ 31 = 289805467"
    using a by (simp only: mod_mult_self2)
  moreover have "s + 22933037144445 = s + 59267453 + 2 ^ 31 * 10679" by simp
  ultimately have "(s + 59267453) mod 2 ^ 31 = 289805467"
    by (simp only: mod_mult_self2)
  moreover have "(s + 59267453) mod 2 ^ 31 = s + 59267453"
    using assms(1) s by (intro mod_pos_pos_trivial) simp_all
  ultimately show False using s by linarith
qed

section \<open>The recurrence of the generator\<close>

lemma wrap32_and: "wrap32 n AND 0x7fffffff = n mod 2 ^ 31"
proof -
  have "wrap32 n AND 0x7fffffff = take_bit 31 ((n + 2 ^ 31) mod 2 ^ 32 - 2 ^ 31)"
    by (simp add: wrap32_def take_bit_eq_mask mask_eq_exp_minus_1)
  also have "\<dots> = ((n + 2 ^ 31) mod 2 ^ 32 - 2 ^ 31) mod 2 ^ 31"
    by (simp only: take_bit_eq_mod)
  also have "\<dots> = ((n + 2 ^ 31) mod 2 ^ 32) mod 2 ^ 31"
    using mod_add_self2 [of "(n + 2 ^ 31) mod 2 ^ 32 - 2 ^ 31" "2 ^ 31"] by simp
  also have "\<dots> = (n + 2 ^ 31) mod 2 ^ 31"
    by (rule mod_mod_cancel) simp
  also have "\<dots> = n mod 2 ^ 31" by (rule mod_add_self2)
  finally show ?thesis .
qed

lemma ToInt32_of_int: "ToInt32 (of_int n) = wrap32 n"
  by (simp add: ToInt32_def)

text \<open>
  The two rounded operations of the recurrence: the result is an integer, and it is either
  even or the exact value of \<open>s * 1103515245 + 12345\<close>, which is then below \<open>2 ^ 53\<close>.
\<close>

lemma rand_sum_cases:
  assumes "0 \<le> s"
  shows "\<exists>n. jadd (jmul (of_int s) 1103515245) 12345 = of_int n \<and>
             (even n \<or> n = s * 1103515245 + 12345 \<and> n < 2 ^ 53)"
proof -
  have sum: "\<exists>n. fl (of_int k) = of_int n \<and> (even n \<or> n = k \<and> n < 2 ^ 53)" if "0 \<le> k" for k :: int
  proof (cases "k < 2 ^ 53")
    case True
    then have "fl (of_int k) = of_int k" using that by (intro fl_int_exact) simp
    with True show ?thesis by blast
  next
    case False
    then have "2 ^ 53 \<le> k" by simp
    from fl_int_even [OF this] obtain m where "fl (of_int k) = of_int (2 * m)" by blast
    moreover have "even (2 * m)" by simp
    ultimately show ?thesis by blast
  qed
  have prod: "jmul (of_int s) 1103515245 = fl (of_int (s * 1103515245))"
    by (simp add: jmul_def)
  show ?thesis
  proof (cases "s * 1103515245 < 2 ^ 53")
    case True
    then have "fl (of_int (s * 1103515245)) = of_int (s * 1103515245)"
      using assms by (intro fl_int_exact) simp
    then have e: "jadd (jmul (of_int s) 1103515245) 12345 = fl (of_int (s * 1103515245 + 12345))"
      by (simp add: jadd_def prod)
    have "0 \<le> s * 1103515245 + 12345" using assms by simp
    then show ?thesis unfolding e by (rule sum)
  next
    case False
    then have "2 ^ 53 \<le> s * 1103515245" by simp
    from fl_int_even [OF this] obtain m
      where m: "fl (of_int (s * 1103515245)) = of_int (2 * m)" "2 ^ 52 \<le> m" by blast
    have "fl (of_int s * 1103515245) = 2 * of_int m" using m(1) by simp
    then have "jadd (jmul (of_int s) 1103515245) 12345 = fl (of_int (2 * m + 12345))"
      by (simp add: jadd_def jmul_def)
    moreover have "2 ^ 53 \<le> 2 * m + 12345" using m(2) by simp
    from fl_int_even [OF this] obtain m'
      where "fl (of_int (2 * m + 12345)) = of_int (2 * m')" by blast
    ultimately have "jadd (jmul (of_int s) 1103515245) 12345 = of_int (2 * m')" by simp
    moreover have "even (2 * m')" by simp
    ultimately show ?thesis by blast
  qed
qed

lemma rand_snd:
  "jadd (jmul (of_int s) 1103515245) 12345 = of_int n \<Longrightarrow> snd (rand s) = n mod 2 ^ 31"
  by (simp add: rand_def Let_def ToInt32_of_int wrap32_and)

lemma rand_fst: "fst (rand s) = fl (of_int (snd (rand s)) / 2147483647)"
  by (simp add: rand_def Let_def jdiv_def)

lemma rand_state_range:
  assumes "0 \<le> s"
  shows "0 \<le> snd (rand s)" and "snd (rand s) < 2 ^ 31 - 1"
proof -
  from rand_sum_cases [OF assms] obtain n
    where n: "jadd (jmul (of_int s) 1103515245) 12345 = of_int n"
      and c: "even n \<or> n = s * 1103515245 + 12345 \<and> n < 2 ^ 53" by blast
  have eq: "snd (rand s) = n mod 2 ^ 31" using n by (rule rand_snd)
  show "0 \<le> snd (rand s)" by (simp add: eq)
  have "n mod 2 ^ 31 \<noteq> 2 ^ 31 - 1"
  proof (cases "even n")
    case True
    have "even (n mod 2 ^ 31)" using True by (simp add: even_mod_2_iff dvd_mod_iff)
    moreover have "odd (2 ^ 31 - 1 :: int)" by simp
    ultimately show ?thesis by metis
  next
    case False
    with c have "n = s * 1103515245 + 12345" "s * 1103515245 + 12345 < 2 ^ 53" by simp_all
    then show ?thesis using lcg_exact_not_max [OF assms] by simp
  qed
  moreover have "n mod 2 ^ 31 < 2 ^ 31" by simp
  ultimately show "snd (rand s) < 2 ^ 31 - 1" by (simp add: eq)
qed

lemma rand_exact:
  assumes "0 \<le> s" "s * 1103515245 + 12345 \<le> 2 ^ 53"
  shows "snd (rand s) = (s * 1103515245 + 12345) mod 2 ^ 31"
proof -
  have "fl (of_int (s * 1103515245)) = of_int (s * 1103515245)"
    using assms by (intro fl_int_exact) simp
  moreover have "fl (of_int (s * 1103515245 + 12345)) = of_int (s * 1103515245 + 12345)"
    using assms by (intro fl_int_exact) simp
  ultimately have "jadd (jmul (of_int s) 1103515245) 12345 = of_int (s * 1103515245 + 12345)"
    by (simp add: jadd_def jmul_def)
  then show ?thesis by (rule rand_snd)
qed

text \<open>A draw is a double between 0 and \<open>1 - 2 powi (-31)\<close>.\<close>

lemma rand_value_range:
  assumes "0 \<le> s"
  shows "0 \<le> fst (rand s)" and "fst (rand s) \<le> 1 - 1 / 2 ^ 31"
proof -
  define t where "t = snd (rand s)"
  have t: "0 \<le> t" "t \<le> 2 ^ 31 - 2"
    using rand_state_range [OF assms] by (simp_all add: t_def)
  have eq: "fst (rand s) = fl (of_int t / 2147483647)" by (simp add: rand_fst t_def)
  have "(0::rat) \<le> of_int t / 2147483647" using t(1) by simp
  then show "0 \<le> fst (rand s)" unfolding eq by (rule fl_nonneg)
  have "(of_int t :: rat) \<le> of_int (2 ^ 31 - 2)" using t(2) by (simp only: of_int_le_iff)
  then have "(of_int t :: rat) / 2147483647 \<le> 2147483646 / 2147483647"
    by (simp add: divide_right_mono)
  also have "\<dots> \<le> of_int 2147483647 * 2 powi (- 31)" by (simp add: power_int_minus)
  finally have "fl (of_int t / 2147483647) \<le> fl (of_int 2147483647 * 2 powi (- 31))"
    by (rule fl_mono)
  also have "\<dots> = of_int 2147483647 * 2 powi (- 31)" by (rule fl_repr) simp
  also have "\<dots> = 1 - 1 / 2 ^ 31" by (simp add: power_int_minus)
  finally show "fst (rand s) \<le> 1 - 1 / 2 ^ 31" unfolding eq .
qed

lemma jmul_index_range:
  assumes "0 \<le> r" "r \<le> 1 - 1 / 2 ^ 31" "0 < n" "n \<le> 2 ^ 21"
  shows "0 \<le> \<lfloor>jmul r (of_nat n)\<rfloor>" and "\<lfloor>jmul r (of_nat n)\<rfloor> < int n"
proof -
  have "0 \<le> fl (r * of_nat n)" using assms(1) by (intro fl_nonneg) simp
  then show "0 \<le> \<lfloor>jmul r (of_nat n)\<rfloor>" by (simp add: jmul_def)
  have k: "\<bar>2147483647 * int n\<bar> \<le> 2 ^ 53" using assms(4) by simp
  have "r * of_nat n \<le> (1 - 1 / 2 ^ 31) * of_nat n"
    using assms(2) by (intro mult_right_mono) simp_all
  also have "\<dots> = of_int (2147483647 * int n) * 2 powi (- 31)"
    by (simp add: power_int_minus field_simps)
  finally have "fl (r * of_nat n) \<le> fl (of_int (2147483647 * int n) * 2 powi (- 31))"
    by (rule fl_mono)
  also have "\<dots> = of_int (2147483647 * int n) * 2 powi (- 31)" using k by (rule fl_repr)
  also have "\<dots> < of_nat n" using assms(3) by (simp add: power_int_minus field_simps)
  finally have "jmul r (of_nat n) < of_int (int n)" by (simp add: jmul_def)
  then show "\<lfloor>jmul r (of_nat n)\<rfloor> < int n" by (simp only: floor_less_iff)
qed

lemma pick_Some:
  assumes "0 \<le> r" "r \<le> 1 - 1 / 2 ^ 31" "xs \<noteq> []" "length xs \<le> 2 ^ 21"
  shows "\<exists>i < length xs. pick xs r = Some (xs ! i)"
proof -
  define f where "f = \<lfloor>jmul r (of_nat (length xs))\<rfloor>"
  have n: "0 < length xs" using assms(3) by simp
  note b = jmul_index_range [OF assms(1,2) n assms(4), folded f_def]
  have "(of_int f :: rat) < of_int (int (length xs))" using b(2) by (simp only: of_int_less_iff)
  then have "pick xs r = Some (xs ! nat f)"
    using b(1) by (simp add: pick_def jsidx_def Math_floor_def f_def [symmetric])
  moreover have "nat f < length xs" using b by linarith
  ultimately show ?thesis by blast
qed

lemma rand_pick:
  assumes "0 \<le> g" "xs \<noteq> []" "length xs \<le> 2 ^ 21"
  shows "\<exists>i < length xs. pick xs (fst (rand g)) = Some (xs ! i)"
  using rand_value_range [OF assms(1)] assms(2,3) by (rule pick_Some)

section \<open>The hash and the sequence of draws\<close>

lemma wrap32_sint: "wrap32 n = sint (word_of_int n :: 32 word)"
  by (simp add: wrap32_def sint_sbintrunc' signed_take_bit_eq_take_bit_shift take_bit_eq_mod)

lemma hashString_step_sint:
  "hashString_step (sint (h :: 32 word)) c = sint (h * 31 + ucast c)"
proof -
  have a: "wrap32 (sint h) = sint h" by (simp add: wrap32_sint)
  have b: "wrap32 (sint h * 2 ^ 5) = sint (h * 32)" by (simp add: wrap32_sint)
  have "(word_of_int (sint (h * 32) - sint h + uint c) :: 32 word) = h * 32 - h + ucast c"
    by (simp add: ucast_eq [symmetric])
  also have "\<dots> = h * 31 + ucast c" by simp
  finally show ?thesis by (simp add: hashString_step_def a b wrap32_sint mult.commute)
qed

lemma hashString_foldl_sint:
  "foldl hashString_step (sint (h :: 32 word)) str = sint (foldl (\<lambda>h c. h * 31 + ucast c) h str)"
  by (induction str arbitrary: h) (simp_all add: hashString_step_sint)

lemma hashString_eq_spec: "hashString str = Hasher_spec str"
  using hashString_foldl_sint [of 0 str] by (simp add: hashString_def Hasher_spec_def Hasher_poly_def)

lemma hashString_nonneg: "0 \<le> hashString str"
  by (simp add: hashString_def)

lemma draw_range_aux: "0 \<le> g \<Longrightarrow> 0 \<le> draw g n \<and> draw g n \<le> 1 - 1 / 2 ^ 31"
proof (induction n arbitrary: g)
  case 0
  then show ?case using rand_value_range [of g] by simp
next
  case (Suc n)
  from Suc.prems have "0 \<le> snd (rand g)" by (rule rand_state_range)
  then show ?case using Suc.IH by simp
qed

lemma fl_eval:
  assumes "2 powi e \<le> x" "x < 2 powi (e + 1)" "rne (x / 2 powi (e - 52)) = k"
  shows "fl x = of_int k * 2 powi (e - 52)"
  using fl_binade(1) [OF assms(1,2)] assms(3) by simp

section \<open>Loops and the invariant of the renderers\<close>

declare for_loop.simps [simp del]

lemma for_loop_invariant_from:
  "(\<And>j t. lo \<le> j \<Longrightarrow> of_int j < n \<Longrightarrow> P t \<Longrightarrow> P (body j t))
    \<Longrightarrow> lo \<le> i \<Longrightarrow> P s \<Longrightarrow> P (for_loop i n body s)"
proof (induction i n body s rule: for_loop.induct)
  case (1 i n body s)
  show ?case
  proof (cases "of_int i < n")
    case True
    have "P (body i s)" using "1.prems"(2) True "1.prems"(3) by (rule "1.prems"(1))
    moreover have "lo \<le> i + 1" using "1.prems"(2) by simp
    ultimately have "P (for_loop (i + 1) n body (body i s))"
      using True "1.prems"(1) by (intro "1.IH")
    then show ?thesis using True by (simp add: for_loop.simps [of i])
  next
    case False
    then show ?thesis using "1.prems"(3) by (simp add: for_loop.simps [of i])
  qed
qed

lemma for_loop_invariant:
  assumes "P s" and "\<And>i s. lo \<le> i \<Longrightarrow> of_int i < n \<Longrightarrow> P s \<Longrightarrow> P (body i s)"
  shows "P (for_loop lo n body s)"
  using assms(2) order_refl assms(1) by (rule for_loop_invariant_from)

lemma for_loop_fold: "for_loop i n body s = fold body [i..\<lceil>n\<rceil> - 1] s"
proof (induction i n body s rule: for_loop.induct)
  case (1 i n body s)
  show ?case
  proof (cases "of_int i < n")
    case True
    then have "i \<le> \<lceil>n\<rceil> - 1" by (simp add: less_ceiling_iff)
    then have "[i..\<lceil>n\<rceil> - 1] = i # [i + 1..\<lceil>n\<rceil> - 1]" by (rule upto_rec1)
    then show ?thesis using True "1.IH" by (simp add: for_loop.simps [of i])
  next
    case False
    then have "\<not> i \<le> \<lceil>n\<rceil> - 1" by (simp add: less_ceiling_iff)
    then show ?thesis using False by (simp add: for_loop.simps [of i])
  qed
qed

lemma rand_nonneg [simp]: "0 \<le> g \<Longrightarrow> 0 \<le> snd (rand g)"
  by (rule rand_state_range)

lemma rand_pick_defined:
  "0 \<le> g \<Longrightarrow> xs \<noteq> [] \<Longrightarrow> length xs \<le> 2 ^ 21 \<Longrightarrow> pick xs (fst (rand g)) \<noteq> None"
  using rand_pick [of g xs] by auto

lemma attr_defined_simps [simp]:
  "attr_defined (k, Color c) = (c \<noteq> None)"
  "attr_defined (k, Num x)" "attr_defined (k, Str t)" "attr_defined (k, Points ps)"
  "attr_defined (k, Rotate a b d)" "attr_defined (k, Path cs)" "attr_defined (k, Blob a b d vs)"
  by (simp_all add: attr_defined_def)

lemma jsidx_of_int:
  "0 \<le> k \<Longrightarrow> k < int (length xs) \<Longrightarrow> jsidx xs (of_int k) = Some (xs ! nat k)"
proof -
  assume a: "0 \<le> k" "k < int (length xs)"
  then have "(of_int k :: rat) < of_int (int (length xs))" by (simp only: of_int_less_iff)
  then show ?thesis using a(1) by (simp add: jsidx_def)
qed

lemma generateGeometric_shape_ok:
  assumes "render_ok p" "palette \<noteq> []" "length palette \<le> 2 ^ 21"
  shows "render_ok (generateGeometric_shape palette sz p)"
  using assms
  by (cases p)
     (simp add: render_ok_def generateGeometric_shape_def Let_def case_prod_unfold rand_pick_defined)

lemma generateGeometric_ok:
  assumes "0 \<le> g" "palette \<noteq> []" "length palette \<le> 2 ^ 21"
  shows "render_ok (generateGeometric g palette sz)"
  unfolding generateGeometric_def Let_def case_prod_unfold
proof (rule for_loop_invariant)
  show "render_ok ([], snd (rand g))" using assms(1) by (simp add: render_ok_def)
  show "render_ok (generateGeometric_shape palette sz s)" if "render_ok s" for s
    using that assms(2,3) by (rule generateGeometric_shape_ok)
qed

lemma generateOrganic_points_nonneg:
  assumes "0 \<le> snd p"
  shows "0 \<le> snd (for_loop lo n (\<lambda>j. generateOrganic_point) p)"
proof (rule for_loop_invariant [where P = "\<lambda>p. 0 \<le> snd p"])
  show "0 \<le> snd p" by (rule assms)
  show "0 \<le> snd (generateOrganic_point s)" if "0 \<le> snd s" for s
    using that by (cases s) (simp add: generateOrganic_point_def Let_def case_prod_unfold)
qed

lemma generateOrganic_blob_ok:
  assumes "render_ok p" "palette \<noteq> []" "length palette \<le> 2 ^ 21"
  shows "render_ok (generateOrganic_blob palette sz p)"
  using assms
  by (cases p)
     (simp add: render_ok_def generateOrganic_blob_def Let_def case_prod_unfold
        rand_pick_defined generateOrganic_points_nonneg)

lemma generateOrganic_ok:
  assumes "0 \<le> g" "palette \<noteq> []" "length palette \<le> 2 ^ 21"
  shows "render_ok (generateOrganic g palette sz)"
  unfolding generateOrganic_def Let_def case_prod_unfold
proof (rule for_loop_invariant)
  show "render_ok ([], snd (rand g))" using assms(1) by (simp add: render_ok_def)
  show "render_ok (generateOrganic_blob palette sz s)" if "render_ok s" for s
    using that assms(2,3) by (rule generateOrganic_blob_ok)
qed

lemma generatePixel_cell_ok:
  assumes "render_ok p" "palette \<noteq> []" "length palette \<le> 2 ^ 21"
  shows "render_ok (generatePixel_cell palette ps x y p)"
  using assms
  by (cases p)
     (simp add: render_ok_def generatePixel_cell_def Let_def case_prod_unfold rand_pick_defined)

lemma generatePixel_ok:
  assumes "0 \<le> g" "palette \<noteq> []" "length palette \<le> 2 ^ 21"
  shows "render_ok (generatePixel g palette sz)"
  unfolding generatePixel_def Let_def
proof (rule for_loop_invariant)
  show "render_ok ([], g)" using assms(1) by (simp add: render_ok_def)
  show "render_ok (for_loop 0 (jdiv sz 20) (\<lambda>y. generatePixel_cell palette 20 x y) s)"
    if "render_ok s" for s x
  proof (rule for_loop_invariant)
    show "render_ok s" by (rule that)
    show "render_ok (generatePixel_cell palette 20 x y t)" if "render_ok t" for t y
      using that assms(2,3) by (rule generatePixel_cell_ok)
  qed
qed

lemma generateCircuit_segments_nonneg:
  assumes "0 \<le> snd (snd (snd p))"
  shows "0 \<le> snd (snd (snd (for_loop lo n (\<lambda>j. generateCircuit_segment) p)))"
proof (rule for_loop_invariant [where P = "\<lambda>p. 0 \<le> snd (snd (snd p))"])
  show "0 \<le> snd (snd (snd p))" by (rule assms)
  show "0 \<le> snd (snd (snd (generateCircuit_segment s)))" if "0 \<le> snd (snd (snd s))" for s
    using that by (cases s) (simp add: generateCircuit_segment_def Let_def case_prod_unfold)
qed

lemma generateCircuit_line_ok:
  assumes "render_ok p" "palette \<noteq> []" "length palette \<le> 2 ^ 21"
  shows "render_ok (generateCircuit_line palette sz p)"
  using assms
  by (cases p)
     (simp add: render_ok_def generateCircuit_line_def Let_def case_prod_unfold
        rand_pick_defined generateCircuit_segments_nonneg)

lemma generateCircuit_node_ok:
  assumes "render_ok p" "palette \<noteq> []" "length palette \<le> 2 ^ 21"
  shows "render_ok (generateCircuit_node palette sz p)"
  using assms
  by (cases p)
     (simp add: render_ok_def generateCircuit_node_def Let_def case_prod_unfold rand_pick_defined)

lemma generateCircuit_ok:
  assumes "0 \<le> g" "palette \<noteq> []" "length palette \<le> 2 ^ 21"
  shows "render_ok (generateCircuit g palette sz)"
proof -
  define lines where "lines = jadd 15 (Math_floor (jmul (fst (rand g)) 20))"
  define p where "p = for_loop 0 lines (\<lambda>i. generateCircuit_line palette sz) ([], snd (rand g))"
  have "render_ok p" unfolding p_def
  proof (rule for_loop_invariant)
    show "render_ok ([], snd (rand g))" using assms(1) by (simp add: render_ok_def)
    show "render_ok (generateCircuit_line palette sz s)" if "render_ok s" for s
      using that assms(2,3) by (rule generateCircuit_line_ok)
  qed
  then have "render_ok (for_loop 0 10 (\<lambda>i. generateCircuit_node palette sz) p)"
  proof (rule for_loop_invariant)
    show "render_ok (generateCircuit_node palette sz s)" if "render_ok s" for s
      using that assms(2,3) by (rule generateCircuit_node_ok)
  qed
  then show ?thesis
    by (simp add: generateCircuit_def Let_def case_prod_unfold p_def lines_def)
qed

lemma stacksPalette_length: "length stacksPalette = 5"
  by (simp add: stacksPalette_def)

lemma stacksPalette_pick_defined: "0 \<le> g \<Longrightarrow> pick stacksPalette (fst (rand g)) \<noteq> None"
  by (rule rand_pick_defined) (simp_all add: stacksPalette_def)

lemma generateStacks_layer_ok:
  assumes "render_ok p" "0 \<le> i"
  shows "render_ok (generateStacks_layer sz i p)"
proof -
  have "jsidx stacksPalette (of_int (i mod 5)) = Some (stacksPalette ! nat (i mod 5))"
    by (rule jsidx_of_int) (simp_all add: stacksPalette_length)
  then show ?thesis using assms(1)
    by (cases p)
       (simp add: render_ok_def generateStacks_layer_def Let_def case_prod_unfold
          stacksPalette_length)
qed

lemma generateStacks_particle_ok:
  assumes "render_ok p"
  shows "render_ok (generateStacks_particle sz p)"
  using assms
  by (cases p)
     (simp add: render_ok_def generateStacks_particle_def Let_def case_prod_unfold
        stacksPalette_pick_defined)

lemma generateStacks_ok:
  assumes "0 \<le> g"
  shows "render_ok (generateStacks g palette sz)"
proof -
  define p where "p = for_loop 0 5 (generateStacks_layer sz) ([], snd (rand g))"
  define t where "t = TextElem ''text''
            [(''x'', Num (jdiv sz 2)), (''y'', Num (jadd (jdiv sz 2) 20)),
             (''font-family'', Str ''Arial Black''),
             (''font-size'', Num (jadd 60 (jmul (fst (rand g)) 40))), (''fill'', Str ''#f7931a''),
             (''text-anchor'', Str ''middle''), (''opacity'', Str ''0.9'')]
            [0x20BF]"
  have "render_ok p" unfolding p_def
  proof (rule for_loop_invariant)
    show "render_ok ([], snd (rand g))" using assms(1) by (simp add: render_ok_def)
    show "render_ok (generateStacks_layer sz i s)" if "render_ok s" "0 \<le> i" for s i
      using that by (rule generateStacks_layer_ok)
  qed
  then have "render_ok (fst p @ [t], snd p)" by (simp add: render_ok_def t_def)
  then have "render_ok (for_loop 0 20 (\<lambda>i. generateStacks_particle sz) (fst p @ [t], snd p))"
  proof (rule for_loop_invariant)
    show "render_ok (generateStacks_particle sz s)" if "render_ok s" for s
      using that by (rule generateStacks_particle_ok)
  qed
  then show ?thesis
    by (simp add: generateStacks_def Let_def case_prod_unfold p_def t_def)
qed

section \<open>Evaluating roundings; the pixel grid\<close>

lemma rne_nearest:
  assumes "of_int k - 1 / 2 < m" "m < of_int k + 1 / 2"
  shows "rne m = k"
proof (cases "of_int k \<le> m")
  case True
  then have "\<lfloor>m\<rfloor> = k" using assms(2) by (intro floor_unique) simp_all
  then show ?thesis using assms(2) by (simp add: rne_def Let_def)
next
  case False
  then have "\<lfloor>m\<rfloor> = k - 1" using assms(1) by (intro floor_unique) simp_all
  then show ?thesis using assms(1) by (simp add: rne_def Let_def)
qed

lemma rne_tie_down:
  assumes "m = of_int k + 1 / 2" "even k"
  shows "rne m = k"
proof -
  have "\<lfloor>m\<rfloor> = k" by (rule floor_unique) (simp_all add: assms(1))
  then show ?thesis using assms by (simp add: rne_def Let_def)
qed

lemma fl_eval_nearest:
  assumes "2 powi e \<le> x" "x < 2 powi (e + 1)"
    and "of_int k - 1 / 2 < x / 2 powi (e - 52)" "x / 2 powi (e - 52) < of_int k + 1 / 2"
  shows "fl x = of_int k * 2 powi (e - 52)"
  using assms(1,2) rne_nearest [OF assms(3,4)] by (rule fl_eval)

lemma fl_eval_tie:
  assumes "2 powi e \<le> x" "x < 2 powi (e + 1)"
    and "x / 2 powi (e - 52) = of_int k + 1 / 2" "even k"
  shows "fl x = of_int k * 2 powi (e - 52)"
  using assms(1,2) rne_tie_down [OF assms(3,4)] by (rule fl_eval)


lemma fold_snoc_map: "fold (\<lambda>y cells. cells @ [f y]) ys acc = acc @ map f ys"
  by (induction ys arbitrary: acc) simp_all

lemma fold_cells_product:
  "fold (\<lambda>x. fold (\<lambda>y cells. cells @ [(x, y)]) ys) xs acc = acc @ List.product xs ys"
  by (induction xs arbitrary: acc) (simp_all add: fold_snoc_map)

lemma fold_fold_product:
  "fold (\<lambda>x. fold (\<lambda>y. c x y) ys) xs s = fold (\<lambda>(x, y). c x y) (List.product xs ys) s"
  by (induction xs arbitrary: s) (simp_all add: fold_map comp_def)

lemma for_loop_fold_fun: "for_loop i n body = fold body [i..\<lceil>n\<rceil> - 1]"
  by (rule ext) (rule for_loop_fold)

lemma generatePixel_cells_product:
  "generatePixel_cells sz = List.product [0..\<lceil>jdiv sz 20\<rceil> - 1] [0..\<lceil>jdiv sz 20\<rceil> - 1]"
  by (simp add: generatePixel_cells_def Let_def for_loop_fold_fun fold_cells_product)

lemma generatePixel_fold:
  "generatePixel g palette sz =
     fold (\<lambda>(x, y). generatePixel_cell palette 20 x y) (generatePixel_cells sz) ([], g)"
  by (simp add: generatePixel_def Let_def for_loop_fold_fun generatePixel_cells_product
        fold_fold_product)

lemma generatePixel_cells_length:
  "length (generatePixel_cells sz) = (nat \<lceil>jdiv sz 20\<rceil>)\<^sup>2"
  by (simp add: generatePixel_cells_product power2_eq_square)

lemma jdiv_multiple:
  assumes "\<bar>k\<bar> \<le> 2 ^ 53"
  shows "jdiv (of_int (20 * k)) 20 = of_int k"
  using fl_int_exact [OF assms] by (simp add: jdiv_def)

lemma generatePixel_cells_multiple:
  assumes "0 \<le> k" "k \<le> 2 ^ 53"
  shows "length (generatePixel_cells (of_int (20 * k))) = (nat k)\<^sup>2"
proof -
  have "\<bar>k\<bar> \<le> 2 ^ 53" using assms by simp
  then have "jdiv (of_int (20 * k)) 20 = of_int k" by (rule jdiv_multiple)
  then show ?thesis by (simp only: generatePixel_cells_length ceiling_of_int)
qed

lemma generatePixel_cells_400: "length (generatePixel_cells 400) = 400"
  using generatePixel_cells_multiple [of 20] by simp

lemma generatePixel_cells_20: "length (generatePixel_cells 20) = 1"
  using generatePixel_cells_multiple [of 1] by simp

lemma generatePixel_cells_30: "length (generatePixel_cells 30) = 4"
proof -
  have "fl (of_int 3 * 2 powi (- 1)) = of_int 3 * 2 powi (- 1)" by (rule fl_repr) simp
  then have e: "jdiv 30 20 = 3 / 2" by (simp add: jdiv_def power_int_minus)
  have c: "\<lceil>3 / 2 :: rat\<rceil> = 2" by (rule ceiling_unique) simp_all
  show ?thesis by (simp add: generatePixel_cells_length e c del: ceiling_divide_eq_div_numeral)
qed

lemma lit_06: "lit (6 / 10) = 5404319552844595 / 2 ^ 53"
  unfolding lit_def
  by (rule trans [OF fl_eval_nearest [where e = "- 1" and k = 5404319552844595]])
     (simp_all add: power_int_minus)

lemma lit_04: "lit (4 / 10) = 3602879701896397 / 2 ^ 53"
  unfolding lit_def
  by (rule trans [OF fl_eval_nearest [where e = "- 2" and k = 7205759403792794]])
     (simp_all add: power_int_minus)

lemma fl_dyadic53:
  assumes "\<bar>k\<bar> \<le> 2 ^ 53"
  shows "fl (of_int k / 2 ^ 53) = of_int k / 2 ^ 53"
  using fl_repr [OF assms, of "- 53"] by (simp add: power_int_minus field_simps)

lemma pixel_opacity_range:
  assumes "0 \<le> r" "r \<le> 1"
  shows "lit (6 / 10) \<le> jadd (lit (6 / 10)) (jmul r (lit (4 / 10)))"
    and "jadd (lit (6 / 10)) (jmul r (lit (4 / 10))) \<le> 1"
proof -
  define c6 :: rat where "c6 = 5404319552844595 / 2 ^ 53"
  define c4 :: rat where "c4 = 3602879701896397 / 2 ^ 53"
  have f6: "fl c6 = c6" using fl_dyadic53 [of 5404319552844595] by (simp add: c6_def)
  have f4: "fl c4 = c4" using fl_dyadic53 [of 3602879701896397] by (simp add: c4_def)
  have f1: "fl 1 = 1" using fl_pow2 [of 0] by simp
  define m where "m = jmul r c4"
  have "0 \<le> r * c4" using assms(1) by (simp add: c4_def)
  then have m0: "0 \<le> m" unfolding m_def jmul_def by (rule fl_nonneg)
  have "r * c4 \<le> c4" using assms(2) by (simp add: c4_def)
  then have "fl (r * c4) \<le> fl c4" by (rule fl_mono)
  then have m1: "m \<le> c4" by (simp add: m_def jmul_def f4)
  have "fl c6 \<le> fl (c6 + m)" using m0 by (intro fl_mono) simp
  then have lo: "c6 \<le> jadd c6 m" by (simp add: jadd_def f6)
  have "c6 + m \<le> 1" using m1 by (simp add: c6_def c4_def)
  then have "fl (c6 + m) \<le> fl 1" by (rule fl_mono)
  then have hi: "jadd c6 m \<le> 1" by (simp add: jadd_def f1)
  show "lit (6 / 10) \<le> jadd (lit (6 / 10)) (jmul r (lit (4 / 10)))"
    using lo by (simp only: lit_06 lit_04 c6_def c4_def m_def)
  show "jadd (lit (6 / 10)) (jmul r (lit (4 / 10))) \<le> 1"
    using hi by (simp only: lit_06 lit_04 c6_def c4_def m_def)
qed

lemma generatePixel_cell_eq:
  "generatePixel_cell palette ps x y (svg, g) =
     (if lit (4 / 10) < draw g 0
      then (svg @ [Elem ''rect''
                 [(''x'', Num (jmul (of_int x) ps)), (''y'', Num (jmul (of_int y) ps)),
                  (''width'', Num ps), (''height'', Num ps),
                  (''fill'', Color (pick palette (draw g 1))),
                  (''opacity'', Num (jadd (lit (6 / 10)) (jmul (draw g 2) (lit (4 / 10)))))]],
            snd (rand (snd (rand (snd (rand g))))))
      else (svg, snd (rand g)))"
  by (simp add: generatePixel_cell_def Let_def case_prod_unfold eval_nat_numeral)

lemma draw_unit: "0 \<le> g \<Longrightarrow> 0 \<le> draw g n \<and> draw g n < 1"
  using draw_range_aux [of g n] by auto

section \<open>Palette selection, documents and traits\<close>

lemma PALETTES_nonempty: "PALETTES \<noteq> []" and PALETTES_small: "length PALETTES \<le> 2 ^ 21"
  by (simp_all add: PALETTES_def)

lemma PALETTES_entry: "p \<in> set PALETTES \<Longrightarrow> length p = 5"
  by (auto simp: PALETTES_def)

lemma two_draws_defined:
  assumes "0 \<le> h" "xs \<noteq> []" "length xs \<le> 2 ^ 21"
  shows "\<exists>p \<in> set xs. pick xs (draw h n) = Some p"
proof -
  have "\<exists>i < length xs. pick xs (draw h n) = Some (xs ! i)"
    using draw_range_aux [OF assms(1), of n] assms(2,3) by (intro pick_Some) simp_all
  then show ?thesis by (metis nth_mem)
qed

lemma draw_0: "draw g 0 = fst (rand g)"
  and draw_1: "draw g 1 = fst (rand (snd (rand g)))"
  and draw_2: "draw g 2 = fst (rand (snd (rand (snd (rand g)))))"
  by (simp_all add: eval_nat_numeral)

lemma generateArt_colors_Inr:
  "\<exists>palette bg g. generateArt_colors seed = Inr (palette, Some bg, g) \<and>
      pick PALETTES (draw (seededRandom (hashString seed)) 0) = Some palette \<and>
      pick palette (draw (seededRandom (hashString seed)) 1) = Some bg \<and>
      palette \<in> set PALETTES \<and> bg \<in> set palette \<and> 0 \<le> g"
proof -
  define h where "h = hashString seed"
  have h: "0 \<le> h" by (simp add: h_def hashString_nonneg)
  from two_draws_defined [OF h PALETTES_nonempty PALETTES_small, of 0]
  obtain palette where p: "palette \<in> set PALETTES" "pick PALETTES (draw h 0) = Some palette"
    by blast
  have len: "length palette = 5" using p(1) by (rule PALETTES_entry)
  then have "palette \<noteq> []" "length palette \<le> 2 ^ 21" by auto
  from two_draws_defined [OF h this, of 1]
  obtain bg where b: "bg \<in> set palette" "pick palette (draw h 1) = Some bg" by blast
  have "0 \<le> snd (rand (snd (rand h)))" using h by simp
  moreover have "generateArt_colors seed = Inr (palette, Some bg, snd (rand (snd (rand h))))"
    using p(2) b(2)
    by (simp add: generateArt_colors_def seededRandom_def h_def [symmetric] Let_def
          case_prod_unfold draw_0 draw_1)
  ultimately show ?thesis using p b by (auto simp: seededRandom_def h_def)
qed

lemma generateArt_document_unfold:
  assumes "generateArt_colors seed = Inr (palette, bg, g)" "palette \<in> set PALETTES"
  shows "generateArt_document seed style sz =
     Inr \<lparr>canvas = sz,
          gradient = [(''0%'', Some (palette ! 0), 8 / 10), (''100%'', Some (palette ! 1), 8 / 10)],
          background = Elem ''rect''
            [(''width'', Num sz), (''height'', Num sz), (''fill'', Str ''url(#bg)'')],
          elements =
            (if style = js ''geometric'' then fst (generateGeometric g palette sz)
             else if style = js ''organic'' then fst (generateOrganic g palette sz)
             else if style = js ''pixel'' then fst (generatePixel g palette sz)
             else if style = js ''circuit'' then fst (generateCircuit g palette sz)
             else if style = js ''stacks'' then fst (generateStacks g palette sz)
             else fst (generateGeometric g palette sz))\<rparr>"
proof -
  have len: "length palette = 5" using assms(2) by (rule PALETTES_entry)
  have "jsidx palette (of_int 0) = Some (palette ! nat 0)"
    by (rule jsidx_of_int) (simp_all add: len)
  moreover have "jsidx palette (of_int 1) = Some (palette ! nat 1)"
    by (rule jsidx_of_int) (simp_all add: len)
  ultimately show ?thesis by (simp add: generateArt_document_def assms(1) Let_def)
qed

lemma generateArt_elements_defined:
  assumes "generateArt_colors seed = Inr (palette, bg, g)" "palette \<in> set PALETTES" "0 \<le> g"
    and "generateArt_document seed style sz = Inr doc"
  shows "list_all elem_defined (elements doc)"
proof -
  have len: "palette \<noteq> []" "length palette \<le> 2 ^ 21"
    using PALETTES_entry [OF assms(2)] by auto
  note ok = generateGeometric_ok [OF assms(3) len, of sz] generateOrganic_ok [OF assms(3) len, of sz]
    generatePixel_ok [OF assms(3) len, of sz] generateCircuit_ok [OF assms(3) len, of sz]
    generateStacks_ok [OF assms(3), of palette sz]
  show ?thesis
    using assms(4) ok unfolding generateArt_document_unfold [OF assms(1,2)] render_ok_def by auto
qed

lemma rand_0: "rand 0 = (26510685646905 / 2 ^ 62, 12345)"
proof -
  have a: "fl 12345 = 12345" using fl_int_exact [of 12345] by simp
  have b: "fl (12345 / 2147483647) = 26510685646905 / 2 ^ 62"
    by (rule trans [OF fl_eval_nearest [where e = "- 18" and k = 6786735525607680]])
       (simp_all add: power_int_minus)
  have c: "wrap32 12345 AND 0x7fffffff = 12345" by (simp add: wrap32_and)
  have "ToInt32 12345 = wrap32 12345" using ToInt32_of_int [of 12345] by simp
  then show ?thesis using c by (simp add: rand_def jmul_def jadd_def jdiv_def a b Let_def)
qed

lemma pick_first_of_five:
  assumes "length xs = 5"
  shows "pick xs (26510685646905 / 2 ^ 62) = Some (xs ! 0)"
proof -
  have e: "(26510685646905 / 2 ^ 62 :: rat) * 5 = of_int 132553428234525 * 2 powi (- 62)"
    by (simp add: power_int_minus)
  have j: "jmul (26510685646905 / 2 ^ 62) 5 = of_int 132553428234525 * 2 powi (- 62)"
    unfolding jmul_def e by (rule fl_repr) simp
  have f: "\<lfloor>of_int 132553428234525 * 2 powi (- 62) :: rat\<rfloor> = 0"
    by (rule floor_unique) (simp_all add: power_int_minus)
  have n: "(of_nat (length xs) :: rat) = 5" by (simp add: assms)
  have "Math_floor (jmul (26510685646905 / 2 ^ 62) (of_nat (length xs))) = of_int 0"
    by (simp only: n j f Math_floor_def)
  moreover have "jsidx xs (of_int 0) = Some (xs ! nat 0)"
    by (rule jsidx_of_int) (simp_all add: assms)
  ultimately show ?thesis by (simp add: pick_def)
qed

lemma generateArt_colors_empty_seed:
  "\<exists>bg g. generateArt_colors [] = Inr (PALETTES ! 0, bg, g)"
proof -
  have "pick PALETTES (26510685646905 / 2 ^ 62) = Some (PALETTES ! 0)"
    by (rule pick_first_of_five) (simp add: PALETTES_def)
  then show ?thesis
    by (simp add: generateArt_colors_def hashString_def seededRandom_def rand_0 Let_def
          case_prod_unfold)
qed

lemma generateTraits_values:
  "\<exists>r b m. map trait_value (tl (generateTraits seed style)) =
        [Some r, Some b, Some m, Some (js ''Genesis'')] \<and>
      r \<in> set (map js [''Common'', ''Uncommon'', ''Rare'', ''Epic'', ''Legendary'']) \<and>
      b \<in> set (map js [''Sunset'', ''Midnight'', ''Ocean'', ''Forest'', ''Cosmic'']) \<and>
      m \<in> set (map js [''Calm'', ''Energetic'', ''Mysterious'', ''Playful'', ''Bold''])"
proof -
  define h where "h = hashString seed"
  define rarities where "rarities = map js [''Common'', ''Uncommon'', ''Rare'', ''Epic'', ''Legendary'']"
  define backgrounds where "backgrounds = map js [''Sunset'', ''Midnight'', ''Ocean'', ''Forest'', ''Cosmic'']"
  define moods where "moods = map js [''Calm'', ''Energetic'', ''Mysterious'', ''Playful'', ''Bold'']"
  have h: "0 \<le> h" by (simp add: h_def hashString_nonneg)
  have l: "rarities \<noteq> []" "length rarities \<le> 2 ^ 21" "backgrounds \<noteq> []"
    "length backgrounds \<le> 2 ^ 21" "moods \<noteq> []" "length moods \<le> 2 ^ 21"
    by (simp_all add: rarities_def backgrounds_def moods_def)
  from two_draws_defined [OF h l(1,2), of 0]
  obtain r where r: "r \<in> set rarities" "pick rarities (draw h 0) = Some r" by blast
  from two_draws_defined [OF h l(3,4), of 1]
  obtain b where b: "b \<in> set backgrounds" "pick backgrounds (draw h 1) = Some b" by blast
  from two_draws_defined [OF h l(5,6), of 2]
  obtain m where m: "m \<in> set moods" "pick moods (draw h 2) = Some m" by blast
  have "map trait_value (tl (generateTraits seed style)) =
        [Some r, Some b, Some m, Some (js ''Genesis'')]"
    using r(2) b(2) m(2)
    by (simp add: generateTraits_def seededRandom_def h_def [symmetric] Let_def case_prod_unfold
          draw_0 draw_1 draw_2 rarities_def backgrounds_def moods_def)
  moreover note r(1) b(1) m(1)
  ultimately show ?thesis unfolding rarities_def backgrounds_def moods_def
    by (intro exI conjI)
qed

text \<open>The Style trait: the catalog name for a catalog key, the raw identifier where the
  property read finds nothing.\<close>

lemma generateTraits_style_catalog:
  "(k, n, d) \<in> set STYLES \<Longrightarrow>
     hd (generateTraits seed (js k)) = \<lparr>trait_type = js ''Style'', trait_value = Some (js n)\<rparr>"
  by (auto simp: STYLES_def generateTraits_def STYLES_name_def js_def Let_def case_prod_unfold)

lemma generateTraits_style_raw:
  "STYLES_name style = None \<Longrightarrow>
     hd (generateTraits seed style) = \<lparr>trait_type = js ''Style'', trait_value = Some style\<rparr>"
  by (simp add: generateTraits_def Let_def case_prod_unfold)

section \<open>The length of the document text\<close>

lemma pathcmd_length_le:
  assumes "\<And>x. number_length eng x \<le> 25"
  shows "pathcmd_length eng c \<le> 106"
proof (cases c)
  case (MoveTo x y)
  then show ?thesis using assms [of x] assms [of y] by simp
next
  case (LineTo x y)
  then show ?thesis using assms [of x] assms [of y] by simp
next
  case (QuadTo x y mx my)
  then show ?thesis using assms [of x] assms [of y] assms [of mx] assms [of my] by simp
next
  case ClosePath
  then show ?thesis by simp
qed

lemma path_length_le:
  assumes "\<And>x. number_length eng x \<le> 25"
  shows "sum_list (map (pathcmd_length eng) cmds) \<le> 106 * length cmds"
proof (induction cmds)
  case Nil
  then show ?case by simp
next
  case (Cons c cmds)
  then show ?case using pathcmd_length_le [OF assms, of c] by simp
qed

lemma generateOrganic_path_count:
  "length (generateOrganic_path eng cx cy r vs) \<le> length vs + 2"
proof -
  define points where "points = generateOrganic_points eng cx cy r vs"
  have lp: "length points = length vs" by (simp add: points_def generateOrganic_points_def)
  have "length (generateOrganic_path eng cx cy r vs) \<le> length points + 2"
    unfolding generateOrganic_path_def Let_def points_def [symmetric]
    by (cases points) simp_all
  then show ?thesis by (simp add: lp)
qed

lemma points_length_le:
  assumes "\<And>x. number_length eng x \<le> 25"
  shows "sum_list (map (\<lambda>(x, y). number_length eng x + 1 + number_length eng y) ps) + (length ps - 1)
           \<le> 52 * length ps"
proof -
  have "sum_list (map (\<lambda>(x, y). number_length eng x + 1 + number_length eng y) ps) \<le> 51 * length ps"
  proof (induction ps)
    case Nil
    then show ?case by simp
  next
    case (Cons p ps)
    obtain x y where p: "p = (x, y)" by (cases p)
    show ?case using Cons assms [of x] assms [of y] by (simp add: p)
  qed
  then show ?thesis by simp
qed

lemma attr_length_le:
  assumes "\<And>x. number_length eng x \<le> 25" "attr_short (k, v)"
  shows "attr_length eng v \<le> attr_bound v"
proof (cases v)
  case (Num x)
  then show ?thesis using assms(1) [of x] by simp
next
  case (Str t)
  then show ?thesis by simp
next
  case (Color c)
  then show ?thesis using assms(2) by (simp add: attr_short_def)
next
  case (Points ps)
  then show ?thesis using points_length_le [OF assms(1), of ps] by simp
next
  case (Rotate a x y)
  then show ?thesis using assms(1) [of a] assms(1) [of x] assms(1) [of y] by simp
next
  case (Path cmds)
  then show ?thesis using path_length_le [OF assms(1), of cmds] by simp
next
  case (Blob cx cy r vs)
  have "sum_list (map (pathcmd_length eng) (generateOrganic_path eng cx cy r vs))
          \<le> 106 * length (generateOrganic_path eng cx cy r vs)"
    using assms(1) by (rule path_length_le)
  also have "\<dots> \<le> 106 * (length vs + 2)"
    using generateOrganic_path_count [of eng cx cy r vs] by simp
  finally show ?thesis by (simp add: Blob)
qed

lemma attrs_length_le:
  assumes "\<And>x. number_length eng x \<le> 25" "list_all attr_short attrs"
  shows "sum_list (map (\<lambda>(k, v). 1 + length k + 2 + attr_length eng v + 1) attrs)
           \<le> sum_list (map (\<lambda>(k, v). 4 + length k + attr_bound v) attrs)"
  using assms(2)
proof (induction attrs)
  case Nil
  then show ?case by simp
next
  case (Cons a attrs)
  obtain k v where a: "a = (k, v)" by (cases a)
  have "attr_length eng v \<le> attr_bound v"
    using assms(1) Cons.prems by (intro attr_length_le [of eng k v]) (simp_all add: a)
  then show ?case using Cons by (simp add: a)
qed

lemma elem_length_le:
  assumes "\<And>x. number_length eng x \<le> 25" "elem_short e"
  shows "elem_length eng e \<le> elem_bound e"
proof (cases e)
  case (Elem tag attrs)
  then show ?thesis using attrs_length_le [OF assms(1), of attrs] assms(2) by simp
next
  case (TextElem tag attrs content)
  then show ?thesis using attrs_length_le [OF assms(1), of attrs] assms(2) by simp
qed

lemma svg_length_simps [simp]:
  "svg_length eng [] = 0"
  "svg_length eng (svg @ svg') = svg_length eng svg + svg_length eng svg'"
  "svg_length eng (e # svg) = elem_length eng e + svg_length eng svg"
  by (simp_all add: svg_length_def)

lemma svg_snoc_le:
  assumes "\<And>x. number_length eng x \<le> 25" "elem_short e" "elem_bound e \<le> K"
  shows "svg_length eng (svg @ [e]) \<le> svg_length eng svg + K"
  using elem_length_le [OF assms(1,2)] assms(3) by simp

lemma fold_bound:
  assumes "\<And>i s. Q s \<Longrightarrow> Q (body i s) \<and> m (body i s) \<le> m s + K"
  shows "Q s \<Longrightarrow> Q (fold body xs s) \<and> m (fold body xs s) \<le> (m s :: nat) + K * length xs"
proof (induction xs arbitrary: s)
  case Nil
  then show ?case by simp
next
  case (Cons x xs)
  from assms [OF Cons.prems, of x] have q: "Q (body x s)" and b: "m (body x s) \<le> m s + K" by simp_all
  from Cons.IH [OF q] b show ?case by simp
qed

lemma for_loop_bound:
  assumes "Q s" "\<And>i s. Q s \<Longrightarrow> Q (body i s) \<and> m (body i s) \<le> m s + K"
  shows "Q (for_loop 0 n body s) \<and> m (for_loop 0 n body s) \<le> (m s :: nat) + K * nat \<lceil>n\<rceil>"
  using fold_bound [of Q body m K s "[0..\<lceil>n\<rceil> - 1]", OF assms(2) assms(1)]
  by (simp add: for_loop_fold)

lemma count_ceiling:
  assumes "0 \<le> g" "0 < n" "n \<le> 2 ^ 21" "0 \<le> a" "a \<le> 2 ^ 20"
  shows "nat \<lceil>jadd (of_int a) (Math_floor (jmul (fst (rand g)) (of_nat n)))\<rceil> \<le> nat a + n - 1"
proof -
  define f where "f = \<lfloor>jmul (fst (rand g)) (of_nat n)\<rfloor>"
  note r = rand_value_range [OF assms(1)]
  note b = jmul_index_range [OF r assms(2,3), folded f_def]
  have "\<bar>a + f\<bar> \<le> 2 ^ 53" using b assms(3,4,5) by simp
  then have "fl (of_int (a + f)) = of_int (a + f)" by (rule fl_int_exact)
  then have "jadd (of_int a) (Math_floor (jmul (fst (rand g)) (of_nat n))) = of_int (a + f)"
    by (simp add: jadd_def Math_floor_def f_def)
  then have "nat \<lceil>jadd (of_int a) (Math_floor (jmul (fst (rand g)) (of_nat n)))\<rceil> = nat (a + f)"
    by (simp only: ceiling_of_int)
  then show ?thesis using b assms(4) by simp
qed

lemmas count_shapes = count_ceiling [of _ 12 8, simplified]
lemmas count_blobs = count_ceiling [of _ 8 5, simplified]
lemmas count_lines = count_ceiling [of _ 20 15, simplified]
lemmas count_segments = count_ceiling [of _ 5 3, simplified]

declare elem_length.simps [simp del]

lemma attr_short_simps [simp]:
  "attr_short (k, Color c) = (color_length c \<le> 9)"
  "attr_short (k, Num x)" "attr_short (k, Str t)" "attr_short (k, Points ps)"
  "attr_short (k, Rotate a b d)" "attr_short (k, Path cs)" "attr_short (k, Blob a b d vs)"
  by (simp_all add: attr_short_def)

lemma jsidx_cases: "jsidx xs i = None \<or> (\<exists>c \<in> set xs. jsidx xs i = Some c)"
proof (cases "of_int \<lfloor>i\<rfloor> = i \<and> 0 \<le> i \<and> i < of_nat (length xs)")
  case True
  then have "\<lfloor>i\<rfloor> < int (length xs)" by (simp add: floor_less_iff)
  moreover have "0 \<le> \<lfloor>i\<rfloor>" using True by simp
  ultimately have "nat \<lfloor>i\<rfloor> < length xs" by linarith
  then have "xs ! nat \<lfloor>i\<rfloor> \<in> set xs" by simp
  moreover have "jsidx xs i = Some (xs ! nat \<lfloor>i\<rfloor>)"
    unfolding jsidx_def using True by (rule if_P)
  ultimately show ?thesis by blast
next
  case False
  then have "jsidx xs i = None" unfolding jsidx_def by (rule if_not_P)
  then show ?thesis by blast
qed

lemma pick_short:
  assumes "\<And>c. c \<in> set palette \<Longrightarrow> length c \<le> 9"
  shows "color_length (pick palette r) \<le> 9"
  using jsidx_cases [of palette "Math_floor (jmul r (of_nat (length palette)))"] assms
  by (auto simp: pick_def color_length_def)

lemma elem_le:
  assumes "\<And>x. number_length eng x \<le> 25" "elem_short e" "elem_bound e \<le> K"
  shows "elem_length eng e \<le> K"
  using elem_length_le [OF assms(1,2)] assms(3) by simp

lemma generateGeometric_shape_length:
  assumes "\<And>x. number_length eng x \<le> 25" "\<And>c. c \<in> set palette \<Longrightarrow> length c \<le> 9"
  shows "svg_length eng (fst (generateGeometric_shape palette sz p)) \<le> svg_length eng (fst p) + 400"
  by (cases p)
     (auto simp: generateGeometric_shape_def Let_def case_prod_unfold pick_short [OF assms(2)]
        intro!: elem_le [OF assms(1)])

lemma generateGeometric_length:
  assumes "\<And>x. number_length eng x \<le> 25" "\<And>c. c \<in> set palette \<Longrightarrow> length c \<le> 9"
    and "0 \<le> g" "palette \<noteq> []" "length palette \<le> 2 ^ 21"
  shows "svg_length eng (fst (generateGeometric g palette sz)) \<le> 7600"
proof -
  define n where "n = jadd 8 (Math_floor (jmul (fst (rand g)) 12))"
  have "render_ok ([], snd (rand g))" using assms(3) by (simp add: render_ok_def)
  from for_loop_bound [where Q = render_ok and m = "\<lambda>p. svg_length eng (fst p)"
      and body = "\<lambda>i. generateGeometric_shape palette sz" and K = 400 and n = n, OF this]
  have "svg_length eng (fst (for_loop 0 n (\<lambda>i. generateGeometric_shape palette sz) ([], snd (rand g))))
          \<le> 400 * nat \<lceil>n\<rceil>"
    using generateGeometric_shape_ok [OF _ assms(4,5)] generateGeometric_shape_length [OF assms(1,2)]
    by simp
  moreover have "nat \<lceil>n\<rceil> \<le> 19" unfolding n_def using assms(3) by (rule count_shapes)
  ultimately show ?thesis
    by (simp add: generateGeometric_def Let_def case_prod_unfold n_def)
qed

lemma generateOrganic_points_length:
  "length (fst (for_loop 0 n (\<lambda>j. generateOrganic_point) p)) \<le> length (fst p) + nat \<lceil>n\<rceil>"
proof -
  have "length (fst (generateOrganic_point s)) \<le> length (fst s) + 1" for s
    by (cases s) (simp add: generateOrganic_point_def Let_def case_prod_unfold)
  from for_loop_bound [where Q = "\<lambda>s. True" and m = "\<lambda>p. length (fst p)"
      and body = "\<lambda>j. generateOrganic_point" and K = 1 and n = n and s = p] this
  show ?thesis by simp
qed

lemma generateOrganic_blob_length:
  assumes "\<And>x. number_length eng x \<le> 25" "\<And>c. c \<in> set palette \<Longrightarrow> length c \<le> 9"
  shows "svg_length eng (fst (generateOrganic_blob palette sz p)) \<le> svg_length eng (fst p) + 1000"
proof -
  have l: "length (fst (for_loop 0 6 (\<lambda>j. generateOrganic_point) ([], g))) \<le> 6" for g
    using generateOrganic_points_length [of 6 "([], g)"] by simp
  have e: "elem_length eng (Elem ''path''
             [(''d'', Blob cx cy r vs), (''fill'', Color c), (''opacity'', Num opacity)]) \<le> 1000"
    if "length vs \<le> 6" "color_length c \<le> 9" for cx cy r vs c opacity
    using that by (intro elem_le [OF assms(1)]) simp_all
  show ?thesis
    by (cases p)
       (auto simp: generateOrganic_blob_def Let_def case_prod_unfold
          intro!: e l pick_short [OF assms(2)])
qed

lemma generateOrganic_length:
  assumes "\<And>x. number_length eng x \<le> 25" "\<And>c. c \<in> set palette \<Longrightarrow> length c \<le> 9"
    and "0 \<le> g" "palette \<noteq> []" "length palette \<le> 2 ^ 21"
  shows "svg_length eng (fst (generateOrganic g palette sz)) \<le> 12000"
proof -
  define n where "n = jadd 5 (Math_floor (jmul (fst (rand g)) 8))"
  have "render_ok ([], snd (rand g))" using assms(3) by (simp add: render_ok_def)
  from for_loop_bound [where Q = render_ok and m = "\<lambda>p. svg_length eng (fst p)"
      and body = "\<lambda>i. generateOrganic_blob palette sz" and K = 1000 and n = n, OF this]
  have "svg_length eng (fst (for_loop 0 n (\<lambda>i. generateOrganic_blob palette sz) ([], snd (rand g))))
          \<le> 1000 * nat \<lceil>n\<rceil>"
    using generateOrganic_blob_ok [OF _ assms(4,5)] generateOrganic_blob_length [OF assms(1,2)]
    by simp
  moreover have "nat \<lceil>n\<rceil> \<le> 12" unfolding n_def using assms(3) by (rule count_blobs)
  ultimately show ?thesis
    by (simp add: generateOrganic_def Let_def case_prod_unfold n_def)
qed

lemma generatePixel_cell_length:
  assumes "\<And>x. number_length eng x \<le> 25" "\<And>c. c \<in> set palette \<Longrightarrow> length c \<le> 9"
  shows "svg_length eng (fst (generatePixel_cell palette ps x y p)) \<le> svg_length eng (fst p) + 190"
  by (cases p)
     (auto simp: generatePixel_cell_def Let_def case_prod_unfold pick_short [OF assms(2)]
        intro!: elem_le [OF assms(1)])

lemma generatePixel_length:
  assumes "\<And>x. number_length eng x \<le> 25" "\<And>c. c \<in> set palette \<Longrightarrow> length c \<le> 9"
    and "0 \<le> g" "palette \<noteq> []" "length palette \<le> 2 ^ 21"
  shows "svg_length eng (fst (generatePixel g palette sz)) \<le> 190 * (nat \<lceil>jdiv sz 20\<rceil>)\<^sup>2"
proof -
  define c where "c = nat \<lceil>jdiv sz 20\<rceil>"
  have inner: "render_ok (for_loop 0 (jdiv sz 20) (\<lambda>y. generatePixel_cell palette 20 x y) s) \<and>
      svg_length eng (fst (for_loop 0 (jdiv sz 20) (\<lambda>y. generatePixel_cell palette 20 x y) s))
        \<le> svg_length eng (fst s) + 190 * c" if "render_ok s" for s x
    unfolding c_def
    using generatePixel_cell_ok [OF _ assms(4,5)] generatePixel_cell_length [OF assms(1,2)]
    by (intro for_loop_bound [where Q = render_ok and m = "\<lambda>p. svg_length eng (fst p)"
          and K = 190, OF that]) simp
  have "render_ok ([], g)" using assms(3) by (simp add: render_ok_def)
  from for_loop_bound [where Q = render_ok and m = "\<lambda>p. svg_length eng (fst p)"
      and body = "\<lambda>x. for_loop 0 (jdiv sz 20) (\<lambda>y. generatePixel_cell palette 20 x y)"
      and K = "190 * c" and n = "jdiv sz 20", OF this]
  have "svg_length eng (fst (for_loop 0 (jdiv sz 20)
          (\<lambda>x. for_loop 0 (jdiv sz 20) (\<lambda>y. generatePixel_cell palette 20 x y)) ([], g)))
          \<le> 190 * c * c"
    using inner by (simp add: c_def)
  then show ?thesis
    by (simp add: generatePixel_def Let_def c_def power2_eq_square mult.assoc)
qed

lemma generateCircuit_segments_length:
  "length (fst (snd (snd (for_loop 0 n (\<lambda>j. generateCircuit_segment) s))))
     \<le> length (fst (snd (snd s))) + nat \<lceil>n\<rceil>"
proof -
  have "length (fst (snd (snd (generateCircuit_segment s)))) \<le> length (fst (snd (snd s))) + 1" for s
    by (cases s) (simp add: generateCircuit_segment_def Let_def case_prod_unfold)
  from for_loop_bound [where Q = "\<lambda>s. True" and m = "\<lambda>s. length (fst (snd (snd s)))"
      and body = "\<lambda>j. generateCircuit_segment" and K = 1 and n = n and s = s] this
  show ?thesis by simp
qed

lemma generateCircuit_line_length:
  assumes "\<And>x. number_length eng x \<le> 25" "\<And>c. c \<in> set palette \<Longrightarrow> length c \<le> 9"
    and "render_ok p"
  shows "svg_length eng (fst (generateCircuit_line palette sz p)) \<le> svg_length eng (fst p) + 1100"
proof -
  obtain svg g where p: "p = (svg, g)" by (cases p)
  have g: "0 \<le> g" using assms(3) by (simp add: p render_ok_def)
  define g3 where "g3 = snd (rand (snd (rand (snd (rand g)))))"
  have g3: "0 \<le> g3" using g by (simp add: g3_def)
  define n where "n = jadd 3 (Math_floor (jmul (fst (rand g3)) 5))"
  have n: "nat \<lceil>n\<rceil> \<le> 7" unfolding n_def using g3 by (rule count_segments)
  have l: "length (fst (snd (snd (for_loop 0 n (\<lambda>j. generateCircuit_segment) (x, y, [c], h))))) \<le> 8"
    for x y c h
    using generateCircuit_segments_length [of n "(x, y, [c], h)"] n by simp
  have e1: "elem_length eng (Elem ''path''
              [(''d'', Path path), (''stroke'', Color c), (''stroke-width'', Str ''3''),
               (''fill'', Str ''none''), (''opacity'', Str ''0.8'')]) \<le> 1000"
    if "length path \<le> 8" "color_length c \<le> 9" for path c
    using that by (intro elem_le [OF assms(1)]) simp_all
  have e2: "elem_length eng (Elem ''circle''
              [(''cx'', Num x), (''cy'', Num y), (''r'', Str ''6''), (''fill'', Color c)]) \<le> 100"
    if "color_length c \<le> 9" for x y c
    using that by (intro elem_le [OF assms(1)]) simp_all
  have split: "a + b \<le> 1100" if "a \<le> 1000" "b \<le> 100" for a b :: nat
    using that by simp
  show ?thesis
    by (auto simp: p generateCircuit_line_def Let_def case_prod_unfold
          g3_def [symmetric] n_def [symmetric]
        intro!: split e1 e2 l pick_short [OF assms(2)])
qed

lemma generateCircuit_node_length:
  assumes "\<And>x. number_length eng x \<le> 25" "\<And>c. c \<in> set palette \<Longrightarrow> length c \<le> 9"
  shows "svg_length eng (fst (generateCircuit_node palette sz p)) \<le> svg_length eng (fst p) + 200"
  by (cases p)
     (auto simp: generateCircuit_node_def Let_def case_prod_unfold pick_short [OF assms(2)]
        intro!: elem_le [OF assms(1)])

lemma generateCircuit_length:
  assumes "\<And>x. number_length eng x \<le> 25" "\<And>c. c \<in> set palette \<Longrightarrow> length c \<le> 9"
    and "0 \<le> g" "palette \<noteq> []" "length palette \<le> 2 ^ 21"
  shows "svg_length eng (fst (generateCircuit g palette sz)) \<le> 39400"
proof -
  define n where "n = jadd 15 (Math_floor (jmul (fst (rand g)) 20))"
  define p where "p = for_loop 0 n (\<lambda>i. generateCircuit_line palette sz) ([], snd (rand g))"
  have "render_ok ([], snd (rand g))" using assms(3) by (simp add: render_ok_def)
  from for_loop_bound [where Q = render_ok and m = "\<lambda>p. svg_length eng (fst p)"
      and body = "\<lambda>i. generateCircuit_line palette sz" and K = 1100 and n = n, OF this]
  have p: "render_ok p" "svg_length eng (fst p) \<le> 1100 * nat \<lceil>n\<rceil>"
    using generateCircuit_line_ok [OF _ assms(4,5)] generateCircuit_line_length [OF assms(1,2)]
    by (simp_all add: p_def)
  have "nat \<lceil>n\<rceil> \<le> 34" unfolding n_def using assms(3) by (rule count_lines)
  with p(2) have a: "svg_length eng (fst p) \<le> 37400" by simp
  from for_loop_bound [where Q = render_ok and m = "\<lambda>p. svg_length eng (fst p)"
      and body = "\<lambda>i. generateCircuit_node palette sz" and K = 200 and n = 10, OF p(1)]
  have "svg_length eng (fst (for_loop 0 10 (\<lambda>i. generateCircuit_node palette sz) p))
          \<le> svg_length eng (fst p) + 2000"
    using generateCircuit_node_ok [OF _ assms(4,5)] generateCircuit_node_length [OF assms(1,2)]
    by simp
  with a show ?thesis
    by (simp add: generateCircuit_def Let_def case_prod_unfold p_def n_def)
qed

lemma stacksPalette_short: "c \<in> set stacksPalette \<Longrightarrow> length c \<le> 9"
  by (auto simp: stacksPalette_def)

lemma generateStacks_layer_length:
  assumes "\<And>x. number_length eng x \<le> 25"
  shows "svg_length eng (fst (generateStacks_layer sz i p)) \<le> svg_length eng (fst p) + 300"
proof -
  have "color_length (jsidx stacksPalette j) \<le> 9" for j
    using jsidx_cases [of stacksPalette j] stacksPalette_short
    by (auto simp: color_length_def)
  then show ?thesis
    by (cases p)
       (auto simp: generateStacks_layer_def Let_def case_prod_unfold intro!: elem_le [OF assms(1)])
qed

lemma generateStacks_particle_length:
  assumes "\<And>x. number_length eng x \<le> 25"
  shows "svg_length eng (fst (generateStacks_particle sz p)) \<le> svg_length eng (fst p) + 200"
  by (cases p)
     (auto simp: generateStacks_particle_def Let_def case_prod_unfold
        pick_short [OF stacksPalette_short] intro!: elem_le [OF assms(1)])

lemma generateStacks_length:
  assumes "\<And>x. number_length eng x \<le> 25" "0 \<le> g"
  shows "svg_length eng (fst (generateStacks g palette sz)) \<le> 5800"
proof -
  define p where "p = for_loop 0 5 (generateStacks_layer sz) ([], snd (rand g))"
  define t where "t = TextElem ''text''
            [(''x'', Num (jdiv sz 2)), (''y'', Num (jadd (jdiv sz 2) 20)),
             (''font-family'', Str ''Arial Black''),
             (''font-size'', Num (jadd 60 (jmul (fst (rand g)) 40))), (''fill'', Str ''#f7931a''),
             (''text-anchor'', Str ''middle''), (''opacity'', Str ''0.9'')]
            [0x20BF]"
  have "0 \<le> snd ([] :: elem list, snd (rand g))" using assms(2) by simp
  from for_loop_bound [where Q = "\<lambda>p. 0 \<le> snd p" and m = "\<lambda>p. svg_length eng (fst p)"
      and body = "generateStacks_layer sz" and K = 300 and n = 5, OF this]
  have p: "0 \<le> snd p" "svg_length eng (fst p) \<le> 1500"
    using generateStacks_layer_length [OF assms(1)]
    by (simp_all add: p_def generateStacks_layer_def Let_def case_prod_unfold)
  have t: "elem_length eng t \<le> 300"
    unfolding t_def by (intro elem_le [OF assms(1)]) simp_all
  have "0 \<le> snd (fst p @ [t], snd p)" using p(1) by simp
  from for_loop_bound [where Q = "\<lambda>p. 0 \<le> snd p" and m = "\<lambda>p. svg_length eng (fst p)"
      and body = "\<lambda>i. generateStacks_particle sz" and K = 200 and n = 20, OF this]
  have "svg_length eng (fst (for_loop 0 20 (\<lambda>i. generateStacks_particle sz) (fst p @ [t], snd p)))
          \<le> svg_length eng (fst p) + elem_length eng t + 4000"
    using generateStacks_particle_length [OF assms(1)]
    by (simp add: generateStacks_particle_def Let_def case_prod_unfold)
  with p(2) t show ?thesis
    by (simp add: generateStacks_def Let_def case_prod_unfold p_def t_def)
qed

lemma PALETTES_short: "palette \<in> set PALETTES \<Longrightarrow> c \<in> set palette \<Longrightarrow> length c \<le> 9"
  by (auto simp: PALETTES_def)

lemma pixel_grid_small:
  assumes "sz \<le> 20000"
  shows "nat \<lceil>jdiv sz 20\<rceil> \<le> 1000"
proof -
  have "sz / 20 \<le> 1000" using assms by simp
  then have "fl (sz / 20) \<le> fl 1000" by (rule fl_mono)
  moreover have "fl 1000 = 1000" using fl_int_exact [of 1000] by simp
  ultimately have "jdiv sz 20 \<le> of_int 1000" by (simp add: jdiv_def)
  then have "\<lceil>jdiv sz 20\<rceil> \<le> 1000" by (simp only: ceiling_le_iff)
  then show ?thesis by linarith
qed

lemma generateArt_document_length:
  assumes "\<And>x. number_length eng x \<le> 25"
    and "style = js ''pixel'' \<longrightarrow> sz \<le> 20000"
    and "generateArt_document seed style sz = Inr doc"
  shows "document_length eng doc \<le> 190001000"
proof -
  from generateArt_colors_Inr [of seed] obtain palette bg g
    where c: "generateArt_colors seed = Inr (palette, Some bg, g)" "palette \<in> set PALETTES"
      and g: "0 \<le> g"
    by blast
  have len: "palette \<noteq> []" "length palette \<le> 2 ^ 21" "length palette = 5"
    using PALETTES_entry [OF c(2)] by auto
  note short = PALETTES_short [OF c(2)]
  have s0: "length (palette ! 0) \<le> 9" and s1: "length (palette ! 1) \<le> 9"
    using len(3) by (auto intro!: short)
  note b = generateGeometric_length [OF assms(1) short g len(1,2), of sz]
    generateOrganic_length [OF assms(1) short g len(1,2), of sz]
    generateCircuit_length [OF assms(1) short g len(1,2), of sz]
    generateStacks_length [OF assms(1) g, of palette sz]
  have px: "svg_length eng (fst (generatePixel g palette sz)) \<le> 190000000" if "sz \<le> 20000"
  proof -
    have "(nat \<lceil>jdiv sz 20\<rceil>)\<^sup>2 \<le> 1000\<^sup>2"
      using pixel_grid_small [OF that] by (intro power_mono) simp_all
    then show ?thesis
      using generatePixel_length [OF assms(1) short g len(1,2), of sz] by simp
  qed
  have "svg_length eng (elements doc) \<le> 190000000"
    using assms(2,3) b px unfolding generateArt_document_unfold [OF c] by (auto split: if_splits)
  moreover have "sum_list (map (\<lambda>(off, c, op). color_length c) (gradient doc)) \<le> 18"
    using assms(3) s0 s1 unfolding generateArt_document_unfold [OF c]
    by (auto simp: color_length_def)
  moreover have "number_length eng (canvas doc) \<le> 25" by (rule assms(1))
  ultimately show ?thesis by (simp add: document_length_def)
qed

lemma generateArt_success:
  assumes "\<And>x. number_length eng x \<le> 25"
    and "2 ^ 28 - 16 \<le> max_string_length eng"
    and "style = js ''pixel'' \<longrightarrow> sz \<le> 20000"
  shows "\<exists>doc. generateArt_document seed style sz = Inr doc \<and> generateArt eng seed style sz = Inr doc"
proof -
  from generateArt_colors_Inr [of seed] obtain palette bg g
    where c: "generateArt_colors seed = Inr (palette, Some bg, g)" "palette \<in> set PALETTES"
    by blast
  obtain doc where d: "generateArt_document seed style sz = Inr doc"
    by (simp add: generateArt_document_unfold [OF c])
  from generateArt_document_length [OF assms(1,3) d] assms(2)
  have "document_length eng doc \<le> max_string_length eng" by simp
  with d show ?thesis by (simp add: generateArt_def)
qed

lemma generateArt_cases:
  "\<exists>doc. generateArt_document seed style sz = Inr doc \<and>
     generateArt eng seed style sz =
       (if document_length eng doc \<le> max_string_length eng then Inr doc else Inl RangeError)"
proof -
  from generateArt_colors_Inr [of seed] obtain palette bg g
    where c: "generateArt_colors seed = Inr (palette, Some bg, g)" "palette \<in> set PALETTES"
    by blast
  obtain doc where d: "generateArt_document seed style sz = Inr doc"
    by (simp add: generateArt_document_unfold [OF c])
  then show ?thesis by (simp add: generateArt_def)
qed

lemma generateArt_RangeError:
  assumes "max_string_length eng < 363"
  shows "generateArt eng seed style sz = Inl RangeError"
proof -
  from generateArt_cases [of seed style sz eng] obtain doc
    where d: "generateArt eng seed style sz =
                (if document_length eng doc \<le> max_string_length eng then Inr doc else Inl RangeError)"
    by blast
  have "363 \<le> document_length eng doc" by (simp add: document_length_def)
  with assms have "\<not> document_length eng doc \<le> max_string_length eng" by simp
  with d show ?thesis by simp
qed

section \<open>The recurrence on integers\<close>

lemma fl_of_int_large:
  assumes "2 ^ 53 < m"
  shows "fl (of_int m) = of_int (rne (of_int m / 2 ^ nat (bitlen m - 53)) * 2 ^ nat (bitlen m - 53))"
proof -
  have m: "0 < m" using assms by (simp add: less_trans [OF _ assms])
  note b = bitlen_powi_bounds [OF m]
  have "(of_int (2 ^ 53) :: rat) < of_int m" using assms by (simp only: of_int_less_iff)
  then have "(2::rat) powi 53 < 2 powi bitlen m" using b(2) by simp
  then have k: "53 < bitlen m" by (rule pow2_less_cancel)
  have u: "(2::rat) powi (bitlen m - 1 - 52) = 2 ^ nat (bitlen m - 53)"
    using k by (simp add: power_int_nonneg_exp)
  have "of_int m < (2::rat) powi (bitlen m - 1 + 1)" using b(2) by simp
  from fl_binade(1) [OF b(1) this] show ?thesis by (simp only: u of_int_mult of_int_power of_int_numeral)
qed

lemma fl_of_int_round53: "fl (of_int n) = of_int (round53 n)"
proof -
  consider "\<bar>n\<bar> \<le> 2 ^ 53" | "2 ^ 53 < n" | "n < - (2 ^ 53)" by linarith
  then show ?thesis
  proof cases
    case 1
    then show ?thesis by (simp add: round53_def fl_int_exact)
  next
    case 2
    then have "\<not> \<bar>n\<bar> \<le> 2 ^ 53" "\<bar>n\<bar> = n" "sgn n = 1" by simp_all
    then show ?thesis using fl_of_int_large [OF 2] by (simp add: round53_def Let_def)
  next
    case 3
    then have a: "\<not> \<bar>n\<bar> \<le> 2 ^ 53" "\<bar>n\<bar> = - n" "sgn n = - 1" by simp_all
    have "2 ^ 53 < - n" using 3 by simp
    from fl_of_int_large [OF this]
    have "fl (- of_int n) = of_int (rne (of_int (- n) / 2 ^ nat (bitlen (- n) - 53)) * 2 ^ nat (bitlen (- n) - 53))"
      by simp
    then have "fl (of_int n) = - of_int (rne (of_int (- n) / 2 ^ nat (bitlen (- n) - 53)) * 2 ^ nat (bitlen (- n) - 53))"
      by (simp only: fl_minus neg_equal_iff_equal [symmetric, of "fl (of_int n)"] minus_minus)
    then show ?thesis using a by (simp add: round53_def Let_def)
  qed
qed

lemma rand_round53:
  "snd (rand s) = round53 (round53 (s * 1103515245) + 12345) mod 2 ^ 31"
proof -
  have "jmul (of_int s) 1103515245 = fl (of_int (s * 1103515245))" by (simp add: jmul_def)
  then have "jmul (of_int s) 1103515245 = of_int (round53 (s * 1103515245))"
    by (simp only: fl_of_int_round53)
  then have "jadd (jmul (of_int s) 1103515245) 12345 = fl (of_int (round53 (s * 1103515245) + 12345))"
    by (simp add: jadd_def)
  then have "jadd (jmul (of_int s) 1103515245) 12345 = of_int (round53 (round53 (s * 1103515245) + 12345))"
    by (simp only: fl_of_int_round53)
  then show ?thesis by (rule rand_snd)
qed

lemma rand_range_all: "0 \<le> snd (rand s)" "snd (rand s) < 2 ^ 31"
  by (simp_all add: rand_round53)

section \<open>The claims\<close>

text \<open>
  C1, as amended. \<open>generateArt\<close> has no check of the canvas size: it never raises
  \<open>InvalidCanvasSize\<close>, nor a TypeError. For every seed, every style identifier and every
  canvas size, positive, zero or negative, it builds a document whose canvas has that
  size and returns it, unless the text of the document is longer than the engine lets a
  string be, when the concatenation raises \<open>RangeError\<close>. Where no number prints with more
  than 25 code units and a string may have \<open>2 ^ 28 - 16\<close> code units, it returns the
  document for every style other than \<open>pixel\<close> at every size, and for \<open>pixel\<close> at every
  size up to 20000.
\<close>

theorem generateArt_total:
  "generateArt eng seed style sz \<noteq> Inl InvalidCanvasSize \<and>
   generateArt eng seed style sz \<noteq> Inl TypeError \<and>
   (\<exists>doc. generateArt_document seed style sz = Inr doc \<and> canvas doc = sz \<and>
      generateArt eng seed style sz =
        (if document_length eng doc \<le> max_string_length eng then Inr doc else Inl RangeError)) \<and>
   ((\<forall>x. number_length eng x \<le> 25) \<and> 2 ^ 28 - 16 \<le> max_string_length eng \<and>
    (style = js ''pixel'' \<longrightarrow> sz \<le> 20000) \<longrightarrow>
      (\<exists>doc. generateArt eng seed style sz = Inr doc \<and> canvas doc = sz))"
proof -
  from generateArt_colors_Inr [of seed] obtain palette bg g
    where c: "generateArt_colors seed = Inr (palette, Some bg, g)" "palette \<in> set PALETTES"
    by blast
  obtain doc where d: "generateArt_document seed style sz = Inr doc" "canvas doc = sz"
    by (simp add: generateArt_document_unfold [OF c])
  have e: "generateArt eng seed style sz =
        (if document_length eng doc \<le> max_string_length eng then Inr doc else Inl RangeError)"
    by (simp add: generateArt_def d(1))
  have "\<exists>doc. generateArt eng seed style sz = Inr doc \<and> canvas doc = sz"
    if "\<forall>x. number_length eng x \<le> 25" "2 ^ 28 - 16 \<le> max_string_length eng"
      "style = js ''pixel'' \<longrightarrow> sz \<le> 20000"
  proof -
    from that(1) have "\<And>x. number_length eng x \<le> 25" by blast
    from generateArt_success [OF this that(2,3), of seed] d show ?thesis by auto
  qed
  moreover have "generateArt eng seed style sz \<noteq> Inl InvalidCanvasSize"
    and "generateArt eng seed style sz \<noteq> Inl TypeError"
    by (simp_all add: e)
  ultimately show ?thesis using d e by blast
qed

text \<open>Pixel at canvas size 400 on the sample engine.\<close>

theorem generateArt_total_witness:
  "(\<forall>x. number_length sample_engine x \<le> 25) \<and> 2 ^ 28 - 16 \<le> max_string_length sample_engine \<and>
   (400 :: rat) \<le> 20000 \<and>
   (\<exists>doc. generateArt sample_engine (js ''abc'') (js ''pixel'') 400 = Inr doc \<and> canvas doc = 400)"
proof -
  have a: "\<forall>x. number_length sample_engine x \<le> 25" by (simp add: sample_engine_def)
  have b: "2 ^ 28 - 16 \<le> max_string_length sample_engine" by (simp add: sample_engine_def)
  have c: "js ''pixel'' = js ''pixel'' \<longrightarrow> (400 :: rat) \<le> 20000" by simp
  from generateArt_total [of sample_engine "js ''abc''" "js ''pixel''" 400] a b c
  have "\<exists>doc. generateArt sample_engine (js ''abc'') (js ''pixel'') 400 = Inr doc \<and> canvas doc = 400"
    by blast
  with a b show ?thesis by simp
qed

text \<open>At canvas size 0 and at canvas size -400 no \<open>InvalidCanvasSize\<close> is raised.\<close>

theorem generateArt_nonpositive_counterexample:
  "generateArt sample_engine [] (js ''geometric'') 0 \<noteq> Inl InvalidCanvasSize \<and>
   generateArt sample_engine [] (js ''geometric'') (- 400) \<noteq> Inl InvalidCanvasSize"
proof -
  have n: "\<And>x. number_length sample_engine x \<le> 25" by (simp add: sample_engine_def)
  have m: "2 ^ 28 - 16 \<le> max_string_length sample_engine" by (simp add: sample_engine_def)
  have s: "js ''geometric'' = js ''pixel'' \<longrightarrow> sz \<le> 20000" for sz :: rat
    by (simp add: js_def)
  from generateArt_success [OF n m s, of "[]" 0] obtain doc
    where "generateArt sample_engine [] (js ''geometric'') 0 = Inr doc" by blast
  moreover from generateArt_success [OF n m s, of "[]" "- 400"] obtain doc'
    where "generateArt sample_engine [] (js ''geometric'') (- 400) = Inr doc'" by blast
  ultimately show ?thesis by simp
qed

text \<open>
  C2. For every non-negative seed digest and every number \<open>n\<close> of earlier draws, the
  value of the next draw is at least 0 and strictly below 1.
\<close>

theorem rand_draw_range:
  "0 \<le> seedDigest \<Longrightarrow>
     0 \<le> draw (seededRandom seedDigest) n \<and> draw (seededRandom seedDigest) n < 1"
  using draw_unit [of seedDigest n] by (simp add: seededRandom_def)

theorem rand_draw_range_witness:
  "(0::int) \<le> 12345 \<and> 0 \<le> draw (seededRandom 12345) 7 \<and> draw (seededRandom 12345) 7 < 1"
  using rand_draw_range [of 12345 7] by simp

text \<open>
  C3, as amended. One call maps the register \<open>state\<close> to
  \<open>round53 (round53 (state * 1103515245) + 12345) mod 2 ^ 31\<close>: the product and the sum are
  each rounded to a double (53 significant bits, ties to even) before the reduction, the
  new register lies in \<open>[0, 2 ^ 31)\<close>, and the call returns it divided by \<open>2 ^ 31 - 1\<close>,
  rounded to a double. For a non-negative state with
  \<open>state * 1103515245 + 12345 \<le> 2 ^ 53\<close> no rounding takes place and the new register is
  \<open>(state * 1103515245 + 12345) mod 2 ^ 31\<close> in exact integer arithmetic.
\<close>

theorem rand_recurrence:
  "snd (rand state) = round53 (round53 (state * 1103515245) + 12345) mod 2 ^ 31 \<and>
   fst (rand state) = fl (of_int (snd (rand state)) / (2 ^ 31 - 1)) \<and>
   0 \<le> snd (rand state) \<and> snd (rand state) < 2 ^ 31 \<and>
   (0 \<le> state \<and> state * 1103515245 + 12345 \<le> 2 ^ 53 \<longrightarrow>
      snd (rand state) = (state * 1103515245 + 12345) mod 2 ^ 31)"
  using rand_round53 [of state] rand_range_all [of state] rand_exact [of state]
  by (simp add: rand_fst)

theorem rand_recurrence_witness:
  "(0::int) \<le> 12345 \<and> (12345::int) * 1103515245 + 12345 \<le> 2 ^ 53 \<and>
   snd (rand 12345) = (12345 * 1103515245 + 12345) mod 2 ^ 31 \<and>
   fst (rand 12345) = fl (of_int (snd (rand 12345)) / (2 ^ 31 - 1))"
  using rand_recurrence [of 12345] by simp

text \<open>
  From the 31-bit register 8162316 the call leaves 83589460, the exact recurrence
  83589461.
\<close>

theorem rand_inexact_counterexample:
  "snd (rand 8162316) = 83589460 \<and>
   (8162316 * 1103515245 + 12345) mod 2 ^ 31 = (83589461 :: int)"
proof -
  have a: "fl 9007240140507420 = 9007240140507420"
    by (rule trans [OF fl_eval_nearest [where e = 53 and k = 4503620070253710]]) simp_all
  have b: "fl 9007240140519765 = 9007240140519764"
    by (rule trans [OF fl_eval_tie [where e = 53 and k = 4503620070259882]]) simp_all
  have "jadd (jmul (of_int 8162316) 1103515245) 12345 = of_int 9007240140519764"
    by (simp add: jadd_def jmul_def a b)
  then have "snd (rand 8162316) = 9007240140519764 mod 2 ^ 31" by (rule rand_snd)
  then show ?thesis by simp
qed

text \<open>
  C4, as amended. For every seed, every style (Stacks included) and every canvas size, the
  background of the document that \<open>generateArt\<close> builds, and returns unless its text is too
  long for a string, is a two-stop gradient whose colours are the first two entries of
  the catalog palette selected by the first draw, each stop at opacity 0.8.
\<close>

theorem generateArt_gradient:
  "\<exists>palette doc.
      pick PALETTES (draw (seededRandom (hashString seed)) 0) = Some palette \<and>
      generateArt_document seed style sz = Inr doc \<and>
      gradient doc =
        [(''0%'', Some (palette ! 0), 8 / 10), (''100%'', Some (palette ! 1), 8 / 10)] \<and>
      generateArt eng seed style sz =
        (if document_length eng doc \<le> max_string_length eng then Inr doc else Inl RangeError)"
proof -
  from generateArt_colors_Inr [of seed] obtain palette bg g
    where c: "generateArt_colors seed = Inr (palette, Some bg, g)" "palette \<in> set PALETTES"
      and p: "pick PALETTES (draw (seededRandom (hashString seed)) 0) = Some palette"
    by blast
  show ?thesis
    by (rule exI [of _ palette])
       (use p in \<open>simp add: generateArt_def generateArt_document_unfold [OF c]\<close>)
qed

text \<open>
  For the empty seed and the style \<open>stacks\<close> the stops carry the first two colours of the
  first catalog palette, not those of the Stacks palette.
\<close>

theorem stacks_gradient_counterexample:
  "gradient_colors (generateArt sample_engine [] (js ''stacks'') 400) =
     [Some ''#FF6B6B'', Some ''#4ECDC4''] \<and>
   map Some (take 2 stacksPalette) = [Some ''#5c73f2'', Some ''#00d9ff'']"
proof -
  from generateArt_colors_empty_seed obtain bg g
    where c: "generateArt_colors [] = Inr (PALETTES ! 0, bg, g)" by blast
  have p: "PALETTES ! 0 \<in> set PALETTES" by (simp add: PALETTES_def)
  have n: "\<And>x. number_length sample_engine x \<le> 25" by (simp add: sample_engine_def)
  have m: "2 ^ 28 - 16 \<le> max_string_length sample_engine" by (simp add: sample_engine_def)
  have s: "js ''stacks'' = js ''pixel'' \<longrightarrow> (400 :: rat) \<le> 20000" by simp
  from generateArt_success [OF n m s, of "[]"] obtain doc
    where d: "generateArt_document [] (js ''stacks'') 400 = Inr doc"
      "generateArt sample_engine [] (js ''stacks'') 400 = Inr doc" by blast
  have "gradient_colors (generateArt sample_engine [] (js ''stacks'') 400) =
          [Some (PALETTES ! 0 ! 0), Some (PALETTES ! 0 ! 1)]"
    using d(1) unfolding d(2) generateArt_document_unfold [OF c p]
    by (auto simp: gradient_colors_def)
  then show ?thesis by (simp add: PALETTES_def stacksPalette_def)
qed

text \<open>
  C5. For every seed, every canvas size and every style identifier outside
  \<open>geometric\<close>, \<open>organic\<close>, \<open>pixel\<close>, \<open>circuit\<close>, \<open>stacks\<close>, \<open>generateArt\<close> returns exactly
  what it returns for \<open>geometric\<close>: the elements of the document are those of the Geometric
  renderer run on the closure state and palette left by the two selection draws, and the
  call does not fail (an engine whose numbers print with at most 25 code units and whose
  strings may have \<open>2 ^ 28 - 16\<close> code units always has room for the text).
\<close>

theorem generateArt_fallback:
  "style \<notin> {js ''geometric'', js ''organic'', js ''pixel'', js ''circuit'', js ''stacks''} \<Longrightarrow>
     generateArt eng seed style sz = generateArt eng seed (js ''geometric'') sz \<and>
     (\<exists>palette bg g doc.
         generateArt_colors seed = Inr (palette, bg, g) \<and>
         generateArt_document seed style sz = Inr doc \<and>
         elements doc = fst (generateGeometric g palette sz) \<and>
         generateArt eng seed style sz =
           (if document_length eng doc \<le> max_string_length eng then Inr doc else Inl RangeError) \<and>
         ((\<forall>x. number_length eng x \<le> 25) \<and> 2 ^ 28 - 16 \<le> max_string_length eng \<longrightarrow>
            generateArt eng seed style sz = Inr doc))"
proof -
  assume s: "style \<notin> {js ''geometric'', js ''organic'', js ''pixel'', js ''circuit'', js ''stacks''}"
  from generateArt_colors_Inr [of seed] obtain palette bg g
    where c: "generateArt_colors seed = Inr (palette, Some bg, g)" "palette \<in> set PALETTES"
    by blast
  have e: "generateArt_document seed style sz = generateArt_document seed (js ''geometric'') sz"
    using s by (simp add: generateArt_document_unfold [OF c])
  then have e': "generateArt eng seed style sz = generateArt eng seed (js ''geometric'') sz"
    by (simp add: generateArt_def)
  obtain doc where d: "generateArt_document seed style sz = Inr doc"
      "elements doc = fst (generateGeometric g palette sz)"
    using s by (simp add: generateArt_document_unfold [OF c])
  have f: "generateArt eng seed style sz =
      (if document_length eng doc \<le> max_string_length eng then Inr doc else Inl RangeError)"
    by (simp add: generateArt_def d(1))
  have "generateArt eng seed style sz = Inr doc"
    if "\<forall>x. number_length eng x \<le> 25" "2 ^ 28 - 16 \<le> max_string_length eng"
  proof -
    from that(1) have n: "\<And>x. number_length eng x \<le> 25" by blast
    have "style = js ''pixel'' \<longrightarrow> sz \<le> 20000" using s by simp
    from generateArt_success [OF n that(2) this, of seed] d(1) show ?thesis by auto
  qed
  with c(1) d e' f show ?thesis by blast
qed

theorem generateArt_fallback_witness:
  "js ''unknown-style'' \<notin> {js ''geometric'', js ''organic'', js ''pixel'', js ''circuit'', js ''stacks''} \<and>
   js ''faces'' \<notin> {js ''geometric'', js ''organic'', js ''pixel'', js ''circuit'', js ''stacks''} \<and>
   (\<forall>x. number_length sample_engine x \<le> 25) \<and> 2 ^ 28 - 16 \<le> max_string_length sample_engine \<and>
   generateArt sample_engine (js ''abc'') (js ''unknown-style'') 400 =
     generateArt sample_engine (js ''abc'') (js ''geometric'') 400 \<and>
   generateArt sample_engine (js ''abc'') (js ''faces'') 400 =
     generateArt sample_engine (js ''abc'') (js ''geometric'') 400 \<and>
   (\<exists>doc. generateArt sample_engine (js ''abc'') (js ''unknown-style'') 400 = Inr doc)"
proof -
  have a: "js ''unknown-style'' \<notin> {js ''geometric'', js ''organic'', js ''pixel'', js ''circuit'', js ''stacks''}"
    by (simp add: js_def)
  have b: "js ''faces'' \<notin> {js ''geometric'', js ''organic'', js ''pixel'', js ''circuit'', js ''stacks''}"
    by (simp add: js_def)
  have n: "\<forall>x. number_length sample_engine x \<le> 25" by (simp add: sample_engine_def)
  have m: "2 ^ 28 - 16 \<le> max_string_length sample_engine" by (simp add: sample_engine_def)
  show ?thesis
    using a b n m generateArt_fallback [OF a, of sample_engine "js ''abc''" 400]
      generateArt_fallback [OF b, of sample_engine "js ''abc''" 400]
    by blast
qed

text \<open>
  C6, at the failing input. \<open>constructor\<close> is not a key of the style catalog, yet the Style
  trait of \<open>generateTraits("seed-1", "constructor")\<close> is \<open>"Object"\<close>, not the raw identifier.
\<close>

theorem generateTraits_constructor:
  "hd (generateTraits (js ''seed-1'') (js ''constructor'')) =
     \<lparr>trait_type = js ''Style'', trait_value = Some (js ''Object'')\<rparr> \<and>
   js ''Object'' \<noteq> js ''constructor'' \<and>
   ''constructor'' \<notin> set (map fst STYLES)"
proof -
  have "STYLES_name (js ''constructor'') = Some (js ''Object'')"
    by (simp add: STYLES_name_def STYLES_def js_def)
  moreover have "js ''Object'' \<noteq> []" by (simp add: js_def)
  ultimately have "hd (generateTraits (js ''seed-1'') (js ''constructor'')) =
     \<lparr>trait_type = js ''Style'', trait_value = Some (js ''Object'')\<rparr>"
    by (simp add: generateTraits_def Let_def case_prod_unfold)
  moreover have "js ''Object'' \<noteq> js ''constructor''" by (simp add: js_def)
  moreover have "''constructor'' \<notin> set (map fst STYLES)" by (simp add: STYLES_def)
  ultimately show ?thesis by blast
qed

text \<open>
  C7. \<open>hashString\<close> is the polynomial hash \<open>h = h * 31 + codeUnit\<close> over the code units in
  32-bit wrapping arithmetic, with the absolute value of the signed result taken at the
  end; the hash of the empty string is 0 and no hash is negative.
\<close>

theorem hashString_poly:
  "hashString str = Hasher_spec str \<and> hashString [] = 0 \<and> 0 \<le> hashString str"
  by (simp add: hashString_eq_spec [symmetric] hashString_nonneg) (simp add: hashString_def)

text \<open>
  C8, as amended. \<open>generatePixel\<close> runs its cell body once for every cell of a square grid,
  \<open>x\<close> in the outer loop and \<open>y\<close> in the inner one, over the \<open>x\<close> and \<open>y\<close> from 0 that are
  below \<open>size / 20\<close>: that is the ceiling of \<open>size / 20\<close>, squared, many cells, which is
  \<open>(size / 20)\<^sup>2\<close> when \<open>size\<close> is a multiple of 20 (400 cells for 400, one cell for 20).
  A cell is painted exactly when its gate draw is above 0.4; a painted cell takes one
  colour draw and then one opacity draw, the opacity lying between 0.6 and 1, and an
  unpainted cell takes no further draw.
\<close>

theorem generatePixel_grid:
  "generatePixel g palette sz =
     fold (\<lambda>(x, y). generatePixel_cell palette 20 x y) (generatePixel_cells sz) ([], g) \<and>
   generatePixel_cells sz = List.product [0..\<lceil>jdiv sz 20\<rceil> - 1] [0..\<lceil>jdiv sz 20\<rceil> - 1] \<and>
   length (generatePixel_cells sz) = (nat \<lceil>jdiv sz 20\<rceil>)\<^sup>2 \<and>
   (0 \<le> k \<and> k \<le> 2 ^ 53 \<longrightarrow> length (generatePixel_cells (of_int (20 * k))) = (nat k)\<^sup>2) \<and>
   length (generatePixel_cells 400) = 400 \<and>
   length (generatePixel_cells 20) = 1 \<and>
   generatePixel_cell palette 20 x y (svg, g) =
     (if lit (4 / 10) < draw g 0
      then (svg @ [Elem ''rect''
                 [(''x'', Num (jmul (of_int x) 20)), (''y'', Num (jmul (of_int y) 20)),
                  (''width'', Num 20), (''height'', Num 20),
                  (''fill'', Color (pick palette (draw g 1))),
                  (''opacity'', Num (jadd (lit (6 / 10)) (jmul (draw g 2) (lit (4 / 10)))))]],
            snd (rand (snd (rand (snd (rand g))))))
      else (svg, snd (rand g))) \<and>
   (0 \<le> g \<longrightarrow>
      lit (6 / 10) \<le> jadd (lit (6 / 10)) (jmul (draw g 2) (lit (4 / 10))) \<and>
      jadd (lit (6 / 10)) (jmul (draw g 2) (lit (4 / 10))) \<le> 1)"
proof -
  have "lit (6 / 10) \<le> jadd (lit (6 / 10)) (jmul (draw g 2) (lit (4 / 10))) \<and>
        jadd (lit (6 / 10)) (jmul (draw g 2) (lit (4 / 10))) \<le> 1" if "0 \<le> g"
  proof -
    have "0 \<le> draw g 2" "draw g 2 \<le> 1" using draw_unit [OF that, of 2] by simp_all
    then show ?thesis by (intro conjI pixel_opacity_range)
  qed
  then show ?thesis
    using generatePixel_fold [of g palette sz] generatePixel_cells_product [of sz]
      generatePixel_cells_length [of sz] generatePixel_cells_multiple [of k]
      generatePixel_cells_400 generatePixel_cells_20
      generatePixel_cell_eq [of palette 20 x y svg g]
    by (intro conjI impI) blast+
qed

theorem generatePixel_grid_witness:
  "(0::int) \<le> 3 \<and> (3::int) \<le> 2 ^ 53 \<and> length (generatePixel_cells (of_int (20 * 3))) = (nat 3)\<^sup>2 \<and>
   (0::int) \<le> 12345 \<and>
   lit (6 / 10) \<le> jadd (lit (6 / 10)) (jmul (draw 12345 2) (lit (4 / 10))) \<and>
   jadd (lit (6 / 10)) (jmul (draw 12345 2) (lit (4 / 10))) \<le> 1"
  using generatePixel_grid [of 12345 "[]" 7 3 0 0 "[]"] by simp

text \<open>At canvas size 30 four cells are visited, neither \<open>(30 / 20)\<^sup>2\<close> nor \<open>(30 div 20)\<^sup>2\<close>.\<close>

theorem generatePixel_cells_counterexample:
  "length (generatePixel_cells 30) = 4 \<and> (of_nat 4 :: rat) \<noteq> (30 / 20)\<^sup>2 \<and>
   (4::nat) \<noteq> (30 div 20)\<^sup>2"
  by (simp add: generatePixel_cells_30 power2_eq_square)

text \<open>
  C9. No index \<open>floor(rand() * length)\<close> falls outside its list, for any seed string: an
  index computed from any draw of a closure with a non-negative state lies in
  \<open>[0, length)\<close>; the palette and the background colour selected by \<open>generateArt\<close> are
  entries of the catalog and of the palette; no element of the document of any style has
  an undefined colour; and the Rarity, Background and Mood values of \<open>generateTraits\<close> are
  entries of their lists.
\<close>

theorem index_in_bounds:
  "(0 \<le> g \<and> xs \<noteq> [] \<and> length xs \<le> 2 ^ 21 \<longrightarrow>
      0 \<le> \<lfloor>jmul (draw g n) (of_nat (length xs))\<rfloor> \<and>
      \<lfloor>jmul (draw g n) (of_nat (length xs))\<rfloor> < int (length xs)) \<and>
   (\<exists>palette bg g. generateArt_colors seed = Inr (palette, Some bg, g) \<and>
       palette \<in> set PALETTES \<and> bg \<in> set palette) \<and>
   (\<exists>doc. generateArt_document seed style sz = Inr doc \<and> list_all elem_defined (elements doc) \<and>
       generateArt eng seed style sz =
         (if document_length eng doc \<le> max_string_length eng then Inr doc else Inl RangeError)) \<and>
   (\<exists>r b m. map trait_value (tl (generateTraits seed style)) =
        [Some r, Some b, Some m, Some (js ''Genesis'')] \<and>
      r \<in> set (map js [''Common'', ''Uncommon'', ''Rare'', ''Epic'', ''Legendary'']) \<and>
      b \<in> set (map js [''Sunset'', ''Midnight'', ''Ocean'', ''Forest'', ''Cosmic'']) \<and>
      m \<in> set (map js [''Calm'', ''Energetic'', ''Mysterious'', ''Playful'', ''Bold'']))"
proof (intro conjI)
  show "0 \<le> g \<and> xs \<noteq> [] \<and> length xs \<le> 2 ^ 21 \<longrightarrow>
      0 \<le> \<lfloor>jmul (draw g n) (of_nat (length xs))\<rfloor> \<and>
      \<lfloor>jmul (draw g n) (of_nat (length xs))\<rfloor> < int (length xs)"
  proof (intro impI, elim conjE)
    assume a: "0 \<le> g" "xs \<noteq> []" "length xs \<le> 2 ^ 21"
    have r: "0 \<le> draw g n" "draw g n \<le> 1 - 1 / 2 ^ 31"
      using draw_range_aux [OF a(1), of n] by simp_all
    have "0 < length xs" using a(2) by simp
    from jmul_index_range [OF r this a(3)]
    show "0 \<le> \<lfloor>jmul (draw g n) (of_nat (length xs))\<rfloor> \<and>
      \<lfloor>jmul (draw g n) (of_nat (length xs))\<rfloor> < int (length xs)" by simp
  qed
  from generateArt_colors_Inr [of seed] obtain palette bg g
    where c: "generateArt_colors seed = Inr (palette, Some bg, g)" "palette \<in> set PALETTES"
      "bg \<in> set palette" "0 \<le> g"
    by blast
  then show "\<exists>palette bg g. generateArt_colors seed = Inr (palette, Some bg, g) \<and>
       palette \<in> set PALETTES \<and> bg \<in> set palette" by blast
  obtain doc where d: "generateArt_document seed style sz = Inr doc"
    by (simp add: generateArt_document_unfold [OF c(1,2)])
  from c(1,2,4) d have "list_all elem_defined (elements doc)"
    by (rule generateArt_elements_defined)
  moreover have "generateArt eng seed style sz =
         (if document_length eng doc \<le> max_string_length eng then Inr doc else Inl RangeError)"
    by (simp add: generateArt_def d)
  ultimately show "\<exists>doc. generateArt_document seed style sz = Inr doc \<and>
       list_all elem_defined (elements doc) \<and>
       generateArt eng seed style sz =
         (if document_length eng doc \<le> max_string_length eng then Inr doc else Inl RangeError)"
    using d by blast
  show "\<exists>r b m. map trait_value (tl (generateTraits seed style)) =
        [Some r, Some b, Some m, Some (js ''Genesis'')] \<and>
      r \<in> set (map js [''Common'', ''Uncommon'', ''Rare'', ''Epic'', ''Legendary'']) \<and>
      b \<in> set (map js [''Sunset'', ''Midnight'', ''Ocean'', ''Forest'', ''Cosmic'']) \<and>
      m \<in> set (map js [''Calm'', ''Energetic'', ''Mysterious'', ''Playful'', ''Bold''])"
    by (rule generateTraits_values)
qed

text \<open>The fourth draw of the closure seeded with 12345, used as an index into the palette catalog.\<close>

theorem index_in_bounds_witness:
  "(0::int) \<le> 12345 \<and> PALETTES \<noteq> [] \<and> length PALETTES \<le> 2 ^ 21 \<and>
   0 \<le> \<lfloor>jmul (draw 12345 3) (of_nat (length PALETTES))\<rfloor> \<and>
   \<lfloor>jmul (draw 12345 3) (of_nat (length PALETTES))\<rfloor> < int (length PALETTES)"
  using index_in_bounds [where g = 12345 and xs = PALETTES and n = 3 and seed = "[]"
      and style = "[]" and sz = 400 and eng = sample_engine]
    PALETTES_nonempty PALETTES_small
  by simp

text \<open>
  C10. For every seed and any two style identifiers, the trait lists agree on entries 2
  to 5 (Rarity, Background, Mood, Generation); both lists have five entries, in the order
  Style, Rarity, Background, Mood, Generation.
\<close>

theorem generateTraits_style_independent:
  "tl (generateTraits seed y1) = tl (generateTraits seed y2) \<and>
   length (generateTraits seed y1) = 5 \<and>
   map trait_type (generateTraits seed y1) =
     map js [''Style'', ''Rarity'', ''Background'', ''Mood'', ''Generation'']"
  by (simp add: generateTraits_def Let_def case_prod_unfold)

end
